theory Spec2Isabelle
  imports Complex_Main "HOL-Library.AList" "HOL-Library.Log_Nat"
begin

section \<open>Python values shared by all components\<close>

text \<open>
  Exceptions of the source are values. Only the kinds that the modelled code can raise
  are listed; \<open>HTTPError\<close> stands for any exception of the QA service client.
\<close>

datatype py_error =
  KeyError | IndexError | ZeroDivisionError | OverflowError | AttributeError | TypeError
  | HTTPError

text \<open>The first exception ends a sequence of steps.\<close>

definition and_then :: "'e + 'a \<Rightarrow> ('a \<Rightarrow> 'e + 'b) \<Rightarrow> 'e + 'b" where
  "and_then m f = (case m of Inl e \<Rightarrow> Inl e | Inr x \<Rightarrow> f x)"

subsection \<open>Dates and times\<close>

text \<open>
  A \<open>datetime\<close> is the number of seconds since \<open>datetime.min\<close>, the start of year 1;
  \<open>datetime.max\<close>, the last microsecond of year 9999, is 3652058 days, 86399 seconds and
  999999 microseconds later. Every \<open>datetime.now()\<close> of the source is an explicit
  argument of the function that makes the call.
\<close>

type_synonym timestamp = real

definition datetime_max :: timestamp where
  "datetime_max = 3652058 * 86400 + 86399 + 999999 / 1000000"

text \<open>
  \<open>timedelta(seconds=c)\<close> for an integer \<open>c\<close>: the duration in seconds, and
  \<open>OverflowError\<close> when its whole days \<open>c // 86400\<close> exceed 999999999 in magnitude.
\<close>

definition timedelta_seconds :: "int \<Rightarrow> py_error + real" where
  "timedelta_seconds c =
     (if - 999999999 \<le> c div 86400 \<and> c div 86400 \<le> 999999999 then Inr (real_of_int c)
      else Inl OverflowError)"

text \<open>\<open>d + delta\<close>: \<open>OverflowError\<close> when the sum is no \<open>datetime\<close>.\<close>

definition datetime_add :: "timestamp \<Rightarrow> real \<Rightarrow> py_error + timestamp" where
  "datetime_add d delta =
     (if 0 \<le> d + delta \<and> d + delta \<le> datetime_max then Inr (d + delta)
      else Inl OverflowError)"

subsection \<open>Floats\<close>

text \<open>
  A Python \<open>float\<close> is an IEEE 754 double: a rational of the form \<open>m * 2^e\<close> with
  \<open>|m| < 2^53\<close> and \<open>e \<ge> -1074\<close> below \<open>2^1024\<close> in magnitude, an infinity or NaN. The
  sign of a zero is not kept: neither \<open><\<close> nor the products below depend on it.
\<close>

datatype double = Finite rat | PInf | NInf | NaN

definition pow2 :: "int \<Rightarrow> rat" where
  "pow2 n = (if 0 \<le> n then 2 ^ nat n else 1 / 2 ^ nat (- n))"

text \<open>For positive \<open>x\<close>, the exponent \<open>e\<close> with \<open>2^e \<le> x < 2^(e+1)\<close>.\<close>

definition ilog2 :: "rat \<Rightarrow> int" where
  "ilog2 x =
     (let (a, b) = quotient_of x;
          e = bitlen a - bitlen b
      in if pow2 e \<le> x then e else e - 1)"

definition round_half_even :: "rat \<Rightarrow> int" where
  "round_half_even x =
     (let n = \<lfloor>x\<rfloor>;
          rest = x - of_int n
      in if rest < 1 / 2 then n
         else if 1 / 2 < rest then n + 1
         else if even n then n else n + 1)"

text \<open>
  The double nearest to a rational, ties to the even mantissa: 53 bits of mantissa
  at the exponent of the value, the exponent not below that of the smallest normal
  number (so that tiny values are rounded to multiples of \<open>2^-1074\<close>), and an infinity
  when the rounded value reaches \<open>2^1024\<close>.
\<close>

definition round_double :: "rat \<Rightarrow> double" where
  "round_double x =
     (if x = 0 then Finite 0
      else
        let m = \<bar>x\<bar>;
            e = max (ilog2 m) (- 1022);
            quantum = pow2 (e - 52);
            y = of_int (round_half_even (m / quantum)) * quantum
        in if pow2 1024 \<le> y then (if x < 0 then NInf else PInf)
           else Finite (if x < 0 then - y else y))"

text \<open>
  \<open>1.0 / n\<close> for an \<open>int\<close>: \<open>n\<close> is converted to a float first, with \<open>OverflowError\<close> when
  it is too large for one, then \<open>ZeroDivisionError\<close> is raised for 0.
\<close>

definition one_over :: "int \<Rightarrow> py_error + double" where
  "one_over n =
     (case round_double (of_int n) of
        Finite v \<Rightarrow> if v = 0 then Inl ZeroDivisionError else Inr (round_double (1 / v))
      | _ \<Rightarrow> Inl OverflowError)"

text \<open>\<open>x * y\<close> on floats.\<close>

fun fmul :: "double \<Rightarrow> double \<Rightarrow> double" where
  "fmul NaN y = NaN"
| "fmul x NaN = NaN"
| "fmul (Finite a) (Finite b) = round_double (a * b)"
| "fmul (Finite a) PInf = (if a = 0 then NaN else if 0 < a then PInf else NInf)"
| "fmul (Finite a) NInf = (if a = 0 then NaN else if 0 < a then NInf else PInf)"
| "fmul PInf (Finite b) = (if b = 0 then NaN else if 0 < b then PInf else NInf)"
| "fmul NInf (Finite b) = (if b = 0 then NaN else if 0 < b then NInf else PInf)"
| "fmul PInf PInf = PInf"
| "fmul PInf NInf = NInf"
| "fmul NInf PInf = NInf"
| "fmul NInf NInf = PInf"

text \<open>\<open>x < y\<close> on floats: false whenever one side is NaN.\<close>

fun fless :: "double \<Rightarrow> double \<Rightarrow> bool" where
  "fless NaN y = False"
| "fless x NaN = False"
| "fless (Finite a) (Finite b) = (a < b)"
| "fless (Finite a) PInf = True"
| "fless (Finite a) NInf = False"
| "fless PInf y = False"
| "fless NInf NInf = False"
| "fless NInf y = True"

section \<open>lib/config.py\<close>

text \<open>The properties of \<open>Config\<close> that the modelled components read.\<close>

record Config =
  max_tasks_per_story :: int
  default_max_attempts :: int
  rate_limit_cooldown :: int
  high_load_threshold :: int

section \<open>lib/provider\_registry.py\<close>

record ProviderState =
  s_name :: string
  available :: bool
  rate_limited_until :: "timestamp option"
  consecutive_failures :: int
  last_success :: "timestamp option"
  last_failure :: "timestamp option"

text \<open>
  The fields of a definition have the types of their annotations: \<open>priority\<close> is an
  \<open>int\<close> and \<open>confidence_weight\<close> a \<open>float\<close>.
\<close>

record ProviderDefinition =
  d_name :: string
  d_priority :: int
  d_type :: string
  adapter :: string
  rate_limit_strategy :: string
  confidence_weight :: double
  enabled :: bool
  d_config :: "(string \<times> string) list"

text \<open>
  \<open>_definitions\<close> is a dict keyed by the definition's own name; only its values, in
  insertion order, are ever read, so it is the list of its values. \<open>_states\<close> is a dict
  from names to states.
\<close>

record ProviderRegistry =
  config :: Config
  definitions :: "ProviderDefinition list"
  states :: "string \<rightharpoonup> ProviderState"

text \<open>Python's \<open>x or y\<close> on an optional integer: \<open>None\<close> and \<open>0\<close> are both falsy.\<close>

definition py_or :: "int option \<Rightarrow> int \<Rightarrow> int" where
  "py_or x y = (case x of None \<Rightarrow> y | Some v \<Rightarrow> if v = 0 then y else v)"

text \<open>
  The functions that can raise after they have changed the registry return the
  registry as they leave it together with the exception, if any.
  \<open>mark_rate_limited\<close> raises in line 108, before it assigns anything.
\<close>

definition mark_rate_limited ::
  "ProviderRegistry \<Rightarrow> timestamp \<Rightarrow> string \<Rightarrow> int option
     \<Rightarrow> ProviderRegistry \<times> py_error option" where
  "mark_rate_limited reg now name cooldown_seconds =
     (case states reg name of
        None \<Rightarrow> (reg, None)
      | Some state \<Rightarrow>
          let cooldown = py_or cooldown_seconds (rate_limit_cooldown (config reg))
          in (case and_then (timedelta_seconds cooldown) (datetime_add now) of
                Inl e \<Rightarrow> (reg, Some e)
              | Inr until \<Rightarrow>
                  let state1 = state\<lparr>rate_limited_until := Some until\<rparr>;
                      state2 = state1\<lparr>consecutive_failures := consecutive_failures state1 + 1\<rparr>
                  in (reg\<lparr>states := (states reg)(name \<mapsto> state2)\<rparr>, None)))"

definition mark_success :: "ProviderRegistry \<Rightarrow> timestamp \<Rightarrow> string \<Rightarrow> ProviderRegistry" where
  "mark_success reg now name =
     (case states reg name of
        None \<Rightarrow> reg
      | Some state \<Rightarrow>
          reg\<lparr>states := (states reg)(name \<mapsto>
            state\<lparr>last_success := Some now, consecutive_failures := 0,
                  rate_limited_until := None\<rparr>)\<rparr>)"

text \<open>
  \<open>mark_failure\<close> reads the clock once itself (\<open>now\<close>) and, on a rate limit, once more
  inside \<open>mark_rate_limited\<close> (\<open>now2\<close>).
\<close>

definition mark_failure ::
  "ProviderRegistry \<Rightarrow> timestamp \<Rightarrow> timestamp \<Rightarrow> string \<Rightarrow> bool
     \<Rightarrow> ProviderRegistry \<times> py_error option" where
  "mark_failure reg now now2 name is_rate_limit =
     (case states reg name of
        None \<Rightarrow> (reg, None)
      | Some state \<Rightarrow>
          let state1 = state\<lparr>last_failure := Some now\<rparr>;
              state2 = state1\<lparr>consecutive_failures := consecutive_failures state1 + 1\<rparr>;
              reg1 = reg\<lparr>states := (states reg)(name \<mapsto> state2)\<rparr>
          in if is_rate_limit then mark_rate_limited reg1 now2 name None else (reg1, None))"

definition get_enabled_providers :: "ProviderRegistry \<Rightarrow> ProviderDefinition list" where
  "get_enabled_providers reg = sort_key d_priority (filter enabled (definitions reg))"

text \<open>
  The loop of \<open>get_available_providers\<close> over the enabled providers. \<open>self._states[defn.name]\<close>
  raises \<open>KeyError\<close> for a definition without a state.
\<close>

fun available_loop ::
  "(string \<rightharpoonup> ProviderState) \<Rightarrow> timestamp \<Rightarrow> ProviderDefinition list
     \<Rightarrow> py_error + ProviderDefinition list" where
  "available_loop sts now [] = Inr []"
| "available_loop sts now (defn # rest) =
     (case sts (d_name defn) of
        None \<Rightarrow> Inl KeyError
      | Some state \<Rightarrow>
          (case available_loop sts now rest of
             Inl e \<Rightarrow> Inl e
           | Inr avail \<Rightarrow>
               if (case rate_limited_until state of None \<Rightarrow> False | Some until \<Rightarrow> until > now)
               then Inr avail
               else if \<not> available state then Inr avail
               else Inr (defn # avail)))"

definition get_available_providers ::
  "ProviderRegistry \<Rightarrow> timestamp \<Rightarrow> py_error + ProviderDefinition list" where
  "get_available_providers reg now = available_loop (states reg) now (get_enabled_providers reg)"

definition get_local_providers ::
  "ProviderRegistry \<Rightarrow> timestamp \<Rightarrow> py_error + ProviderDefinition list" where
  "get_local_providers reg now =
     (case get_available_providers reg now of
        Inl e \<Rightarrow> Inl e
      | Inr avail \<Rightarrow> Inr (filter (\<lambda>p. d_type p = ''local'') avail))"

section \<open>lib/providers/base.py and lib/qaqueue\_client.py\<close>

record ArtifactBundle =
  b_task_id :: string
  provider :: string
  execution_status :: string
  files_modified :: "string list"
  diff_summary :: "string option"
  logs :: "string option"
  duration_ms :: "int option"
  artifacts_path :: "string option"
  error :: "string option"
  is_rate_limit :: bool

record ProviderStats =
  ps_name :: string
  total_runs :: int
  successes :: int
  failures :: int
  provider_failures :: int
  success_rate :: double
  avg_duration_ms :: int

text \<open>
  The QA service, the provider adapters and the clock are outside the program. What they
  answer during one iteration of the engine's loop is a \<open>world\<close>: the clock readings in
  the order the code takes them, the \<open>total_active\<close> counter of \<open>get_stats\<close> and the
  statistics of \<open>get_provider_stats\<close> (\<open>None\<close> when the call raises), whether
  \<open>start_run\<close> and \<open>complete_run\<close> go through, and the bundle each adapter's
  \<open>generate\<close> would return. \<open>sort_choice\<close> belongs to the Python runtime: the position
  of the element that \<open>list.sort\<close> puts first when a key is NaN (see \<open>first_ranked\<close>).
\<close>

record world =
  now_available :: timestamp
  total_active :: "int option"
  now_local :: timestamp
  provider_stats :: "(string \<rightharpoonup> ProviderStats) option"
  start_run_ok :: bool
  generate :: "string \<Rightarrow> ArtifactBundle"
  complete_run_ok :: bool
  now_report :: timestamp
  now_cooldown :: timestamp
  sort_choice :: "(ProviderDefinition \<times> double) list \<Rightarrow> nat"

definition is_high_load :: "world \<Rightarrow> int \<Rightarrow> py_error + bool" where
  "is_high_load w threshold =
     (case total_active w of None \<Rightarrow> Inl HTTPError | Some active \<Rightarrow> Inr (active > threshold))"

section \<open>provider\_selector.py\<close>

record SelectionContext =
  task_id :: string
  attempt :: int
  max_attempts :: int
  providers_tried :: "string list"
  last_failure_reason :: "string option"
  is_retry :: bool

definition refresh_stats ::
  "(string \<rightharpoonup> ProviderStats) \<Rightarrow> world \<Rightarrow> (string \<rightharpoonup> ProviderStats)" where
  "refresh_stats cached w = (case provider_stats w of None \<Rightarrow> cached | Some fetched \<Rightarrow> fetched)"

text \<open>
  The loop of \<open>_score_providers\<close>, in float arithmetic. \<open>1.0 / p.priority\<close> raises
  \<open>ZeroDivisionError\<close> for priority 0 and \<open>OverflowError\<close> for a priority beyond the
  floats.
\<close>

fun score_loop ::
  "(string \<rightharpoonup> ProviderStats) \<Rightarrow> ProviderDefinition list
     \<Rightarrow> py_error + (ProviderDefinition \<times> double) list" where
  "score_loop cached [] = Inr []"
| "score_loop cached (p # rest) =
     (case one_over (d_priority p) of
        Inl e \<Rightarrow> Inl e
      | Inr priority_score \<Rightarrow>
          let rate = (case cached (d_name p) of
                        None \<Rightarrow> Finite (1 / 2)
                      | Some stats \<Rightarrow>
                          if total_runs stats > 0 then success_rate stats else Finite (1 / 2));
              confidence = confidence_weight p;
              score = fmul (fmul priority_score rate) confidence
          in (case score_loop cached rest of
                Inl e \<Rightarrow> Inl e
              | Inr scored \<Rightarrow> Inr ((p, score) # scored)))"

definition score_providers ::
  "(string \<rightharpoonup> ProviderStats) \<Rightarrow> world \<Rightarrow> ProviderDefinition list
     \<Rightarrow> (string \<rightharpoonup> ProviderStats) \<times> (py_error + (ProviderDefinition \<times> double) list)" where
  "score_providers cached w providers =
     (let cached' = refresh_stats cached w in (cached', score_loop cached' providers))"

text \<open>
  Lines 62 to 74 of \<open>select\<close>: the providers not yet tried, or all available ones when
  every one has been tried.
\<close>

definition untried_or_all :: "SelectionContext \<Rightarrow> ProviderDefinition list \<Rightarrow> ProviderDefinition list" where
  "untried_or_all ctx avail =
     (let candidates = filter (\<lambda>p. d_name p \<notin> set (providers_tried ctx)) avail
      in if candidates = [] then avail else candidates)"

text \<open>
  Lines 80 to 91 of \<open>select\<close>: the load check. Any exception inside the \<open>try\<close> leaves the
  candidates as they were. \<open>p in local\<close> is equality of the dataclass values.
\<close>

definition load_preference ::
  "Config \<Rightarrow> ProviderRegistry \<Rightarrow> world \<Rightarrow> ProviderDefinition list \<Rightarrow> ProviderDefinition list" where
  "load_preference cfg reg w candidates =
     (case is_high_load w (high_load_threshold cfg) of
        Inl e \<Rightarrow> candidates
      | Inr high \<Rightarrow>
          if high then
            (case get_local_providers reg (now_local w) of
               Inl e \<Rightarrow> candidates
             | Inr local \<Rightarrow>
                 if local \<noteq> [] then
                   (let preferred = filter (\<lambda>p. p \<in> set local) candidates
                    in if preferred = [] then candidates else preferred)
                 else candidates)
          else candidates)"

text \<open>
  \<open>scored.sort(key=score, reverse=True)\<close> is a stable sort by descending score:
  insertion from the right, an element going in front of the first one that is not
  greater.
\<close>

fun insert_desc ::
  "ProviderDefinition \<times> double \<Rightarrow> (ProviderDefinition \<times> double) list
     \<Rightarrow> (ProviderDefinition \<times> double) list" where
  "insert_desc x [] = [x]"
| "insert_desc x (y # ys) = (if fless (snd x) (snd y) then y # insert_desc x ys else x # y # ys)"

definition sort_desc ::
  "(ProviderDefinition \<times> double) list \<Rightarrow> (ProviderDefinition \<times> double) list" where
  "sort_desc scored = foldr insert_desc scored []"

text \<open>
  \<open>scored[0]\<close> after the sort. When a score is NaN the comparisons are not an order
  and what \<open>list.sort\<close> returns depends on its algorithm; it is still a rearrangement of
  the list, so its first element is the element at some position of \<open>scored\<close>, which
  \<open>sort_choice\<close> names.
\<close>

definition first_ranked ::
  "world \<Rightarrow> (ProviderDefinition \<times> double) list \<Rightarrow> py_error + ProviderDefinition \<times> double" where
  "first_ranked w scored =
     (if scored = [] then Inl IndexError
      else if NaN \<in> snd ` set scored then Inr (scored ! (sort_choice w scored mod length scored))
      else (case sort_desc scored of
              [] \<Rightarrow> Inl IndexError
            | best # _ \<Rightarrow> Inr best))"

definition select ::
  "Config \<Rightarrow> ProviderRegistry \<Rightarrow> (string \<rightharpoonup> ProviderStats) \<Rightarrow> world \<Rightarrow> SelectionContext
     \<Rightarrow> (string \<rightharpoonup> ProviderStats) \<times> (py_error + ProviderDefinition option)" where
  "select cfg reg cached w ctx =
     (case get_available_providers reg (now_available w) of
        Inl e \<Rightarrow> (cached, Inl e)
      | Inr avail \<Rightarrow>
          let candidates = untried_or_all ctx avail
          in if candidates = [] then (cached, Inr None)
             else
               let candidates = load_preference cfg reg w candidates;
                   (cached', scored) = score_providers cached w candidates
               in (case scored of
                     Inl e \<Rightarrow> (cached', Inl e)
                   | Inr sc \<Rightarrow>
                       (case first_ranked w sc of
                          Inl e \<Rightarrow> (cached', Inl e)
                        | Inr best \<Rightarrow> (cached', Inr (Some (fst best))))))"

definition report_result ::
  "ProviderRegistry \<Rightarrow> timestamp \<Rightarrow> timestamp \<Rightarrow> string \<Rightarrow> bool \<Rightarrow> bool
     \<Rightarrow> ProviderRegistry \<times> py_error option" where
  "report_result reg now now2 provider_name success rate_limit =
     (if success then (mark_success reg now provider_name, None)
      else mark_failure reg now now2 provider_name rate_limit)"

section \<open>mason\_daemon.py: the execution engine\<close>

text \<open>
  \<open>_init_providers\<close>: an adapter object exists for each enabled provider whose adapter
  identifier is one of the three known classes. The adapters themselves are external;
  the model keeps the names they are stored under.
\<close>

definition provider_classes :: "string list" where
  "provider_classes = [''goose'', ''claude_cli'', ''ollama'']"

definition init_providers :: "ProviderRegistry \<Rightarrow> string list" where
  "init_providers reg =
     map d_name (filter (\<lambda>defn. adapter defn \<in> set provider_classes) (get_enabled_providers reg))"

text \<open>
  The state that \<open>_execute_task\<close> reads and writes: the selection context it is given, the registry
  and the selector's statistics cache. \<open>events\<close> are the names of the log events that
  \<open>_execute_task\<close> itself emits and \<open>invoked\<close> the calls of \<open>provider.generate\<close> (provider
  name and returned \<open>execution_status\<close>), both in order.
\<close>

record engine =
  e_context :: SelectionContext
  registry :: ProviderRegistry
  cached_stats :: "string \<rightharpoonup> ProviderStats"
  events :: "string list"
  invoked :: "(string \<times> string) list"

text \<open>How one pass through the body of the \<open>while\<close> loop ends.\<close>

datatype flow = Continue engine | Break engine | Return engine | Raise py_error engine

definition emit :: "string \<Rightarrow> engine \<Rightarrow> engine" where
  "emit event st = st\<lparr>events := events st @ [event]\<rparr>"

definition tried_append :: "string \<Rightarrow> engine \<Rightarrow> engine" where
  "tried_append name st =
     st\<lparr>e_context := (e_context st)\<lparr>providers_tried := providers_tried (e_context st) @ [name]\<rparr>\<rparr>"

text \<open>
  The body of the loop (lines 192 to 287). \<open>has_packet\<close> is the truth value of
  \<open>task_packet\<close>, which the retry path passes as \<open>None\<close>. An exception of
  \<open>report_result\<close> leaves the body before the provider is appended to \<open>providers_tried\<close>.
\<close>

definition loop_body :: "Config \<Rightarrow> string list \<Rightarrow> bool \<Rightarrow> world \<Rightarrow> engine \<Rightarrow> flow" where
  "loop_body cfg providers has_packet w st =
     (case select cfg (registry st) (cached_stats st) w (e_context st) of
        (cached, Inl e) \<Rightarrow> Raise e (st\<lparr>cached_stats := cached\<rparr>)
      | (cached, Inr None) \<Rightarrow>
          Break (emit ''no_provider_available'' (st\<lparr>cached_stats := cached\<rparr>))
      | (cached, Inr (Some provider_defn)) \<Rightarrow>
          (let st1 = st\<lparr>cached_stats := cached\<rparr>;
               name = d_name provider_defn
           in if name \<notin> set providers then
                Continue (tried_append name (emit ''provider_not_initialized'' st1))
              else if \<not> start_run_ok w then
                Break (emit ''start_run_failed'' st1)
              else
                (let st2 = emit ''executing_task'' st1
                 in if \<not> has_packet then
                      Break (emit ''no_task_packet_for_retry'' st2)
                    else
                      (let result = generate w name;
                           st3 = st2\<lparr>invoked := invoked st2 @ [(name, execution_status result)]\<rparr>;
                           st4 = (if complete_run_ok w then st3 else emit ''complete_run_failed'' st3)
                       in if execution_status result = ''success'' then
                            (case report_result (registry st4) (now_report w) (now_cooldown w)
                                    name True False of
                               (reg, Some e) \<Rightarrow> Raise e (st4\<lparr>registry := reg\<rparr>)
                             | (reg, None) \<Rightarrow>
                                 Return (emit ''task_succeeded'' (st4\<lparr>registry := reg\<rparr>)))
                          else if execution_status result = ''provider_failure'' then
                            (case report_result (registry st4) (now_report w) (now_cooldown w)
                                    name False (is_rate_limit result) of
                               (reg, Some e) \<Rightarrow> Raise e (st4\<lparr>registry := reg\<rparr>)
                             | (reg, None) \<Rightarrow>
                                 Continue (emit ''provider_failure_failover''
                                   (tried_append name (st4\<lparr>registry := reg\<rparr>))))
                          else
                            (case report_result (registry st4) (now_report w) (now_cooldown w)
                                    name False False of
                               (reg, Some e) \<Rightarrow> Raise e (st4\<lparr>registry := reg\<rparr>)
                             | (reg, None) \<Rightarrow>
                                 (let st5 = tried_append name (st4\<lparr>registry := reg\<rparr>);
                                      st6 = st5\<lparr>e_context :=
                                               (e_context st5)\<lparr>attempt := attempt (e_context st5) + 1\<rparr>\<rparr>
                                  in Continue (emit ''task_failed'' st6)))))))"

text \<open>The engine state with which a pass through the loop body ends.\<close>

fun flow_state :: "flow \<Rightarrow> engine" where
  "flow_state (Continue st) = st"
| "flow_state (Break st) = st"
| "flow_state (Return st) = st"
| "flow_state (Raise e st) = st"

text \<open>
  How a call of \<open>_execute_task\<close> ends: by the \<open>return\<close> after a success, by falling out
  of the loop to the \<open>task_exhausted\<close> log line, or by an exception that escapes.
  \<open>Running\<close> is not an end: the given number of iterations was used up with the loop
  condition still true.
\<close>

datatype outcome = Succeeded | Exhausted | Raised py_error | Running

text \<open>
  \<open>_execute_task\<close>, bounded by a number of iterations. \<open>env k\<close> is the world during
  iteration \<open>k\<close>.
\<close>

fun execute_task ::
  "nat \<Rightarrow> Config \<Rightarrow> string list \<Rightarrow> bool \<Rightarrow> (nat \<Rightarrow> world) \<Rightarrow> nat \<Rightarrow> engine
     \<Rightarrow> outcome \<times> engine" where
  "execute_task 0 cfg providers has_packet env k st =
     (if attempt (e_context st) < max_attempts (e_context st) then (Running, st)
      else (Exhausted, emit ''task_exhausted'' st))"
| "execute_task (Suc fuel) cfg providers has_packet env k st =
     (if attempt (e_context st) < max_attempts (e_context st) then
        (case loop_body cfg providers has_packet (env k) st of
           Continue st' \<Rightarrow> execute_task fuel cfg providers has_packet env (Suc k) st'
         | Break st' \<Rightarrow> (Exhausted, emit ''task_exhausted'' st')
         | Return st' \<Rightarrow> (Succeeded, st')
         | Raise e st' \<Rightarrow> (Raised e, st'))
      else (Exhausted, emit ''task_exhausted'' st))"

text \<open>
  The \<open>SelectionContext\<close> and the engine state with which \<open>_process_new_stories\<close> calls
  \<open>_execute_task\<close> for a packet whose \<open>max_attempts\<close> is \<open>limit\<close>.
\<close>

definition new_context :: "int \<Rightarrow> SelectionContext" where
  "new_context limit =
     \<lparr>task_id = ''t1'', attempt = 0, max_attempts = limit, providers_tried = [],
      last_failure_reason = None, is_retry = False\<rparr>"

definition start :: "ProviderRegistry \<Rightarrow> int \<Rightarrow> engine" where
  "start reg limit =
     \<lparr>e_context = new_context limit, registry = reg, cached_stats = Map.empty, events = [],
      invoked = []\<rparr>"

text \<open>
  Among recorded \<open>generate\<close> calls, those that returned the given status, and those whose
  status is none of the three that \<open>ArtifactBundle\<close> documents.
\<close>

definition count_status :: "string \<Rightarrow> (string \<times> string) list \<Rightarrow> nat" where
  "count_status status calls = length (filter (\<lambda>call. snd call = status) calls)"

definition count_undocumented :: "(string \<times> string) list \<Rightarrow> nat" where
  "count_undocumented calls =
     length (filter (\<lambda>call. snd call \<notin> {''success'', ''failure'', ''provider_failure''}) calls)"

section \<open>task\_compiler.py\<close>

text \<open>
  A Python \<open>str\<close> holding free text is the list of its code points, so that \<open>line[0]\<close>
  and \<open>line[1:]\<close> count what Python counts. Identifiers (provider names, status values,
  dict keys) are only compared and stay \<open>string\<close>s; \<open>ustr\<close> reads an ASCII literal as text.
\<close>

type_synonym pystr = "nat list"

definition ustr :: "string \<Rightarrow> pystr" where
  "ustr s = map of_char s"

text \<open>
  \<open>str.isspace\<close> and \<open>str.isdigit\<close> are tables of the Unicode database, which is not part
  of the repository: they are parameters.
\<close>

record unicode =
  isspace :: "nat \<Rightarrow> bool"
  isdigit :: "nat \<Rightarrow> bool"

definition strip :: "unicode \<Rightarrow> pystr \<Rightarrow> pystr" where
  "strip u s = rev (dropWhile (isspace u) (rev (dropWhile (isspace u) s)))"

text \<open>\<open>s.split(sep)\<close> for a one-character separator: never an empty list.\<close>

fun split_on :: "nat \<Rightarrow> pystr \<Rightarrow> pystr list" where
  "split_on sep [] = [[]]"
| "split_on sep (c # cs) =
     (if c = sep then [] # split_on sep cs
      else (case split_on sep cs of
              [] \<Rightarrow> [[c]]
            | piece # pieces \<Rightarrow> (c # piece) # pieces))"

text \<open>\<open>s.split(sep, 1)\<close>: one piece without the separator, two pieces with it.\<close>

definition split_once :: "nat \<Rightarrow> pystr \<Rightarrow> pystr list" where
  "split_once sep s =
     (if sep \<in> set s then [takeWhile (\<lambda>c. c \<noteq> sep) s, tl (dropWhile (\<lambda>c. c \<noteq> sep) s)]
      else [s])"

text \<open>\<open>xs[i]\<close> for a non-negative index.\<close>

definition index :: "'a list \<Rightarrow> nat \<Rightarrow> py_error + 'a" where
  "index xs i = (if i < length xs then Inr (xs ! i) else Inl IndexError)"

text \<open>The bullet markers \<open>-\<close>, \<open>*\<close>, U+2022 and U+2713, and the characters \<open>.\<close> and newline.\<close>

definition bullet_markers :: "nat list" where
  "bullet_markers = [45, 42, 8226, 10003]"

definition dot :: nat where
  "dot = 46"

definition newline :: nat where
  "newline = 10"

text \<open>The body of the loop of \<open>_parse_acceptance_criteria\<close>, up to the final test.\<close>

definition parse_line :: "unicode \<Rightarrow> pystr \<Rightarrow> py_error + pystr" where
  "parse_line u line0 =
     (let line1 = strip u line0;
          line2 = (if line1 \<noteq> [] \<and> hd line1 \<in> set bullet_markers
                   then strip u (drop 1 line1) else line1)
      in if line2 \<noteq> [] \<and> isdigit u (hd line2) \<and> dot \<in> set (take 3 line2)
         then (case index (split_once dot line2) 1 of
                 Inl e \<Rightarrow> Inl e
               | Inr rest \<Rightarrow> Inr (strip u rest))
         else Inr line2)"

fun parse_lines :: "unicode \<Rightarrow> pystr list \<Rightarrow> py_error + pystr list" where
  "parse_lines u [] = Inr []"
| "parse_lines u (line0 # lines) =
     (case parse_line u line0 of
        Inl e \<Rightarrow> Inl e
      | Inr line \<Rightarrow>
          (case parse_lines u lines of
             Inl e \<Rightarrow> Inl e
           | Inr criteria \<Rightarrow> Inr (if line \<noteq> [] then line # criteria else criteria)))"

definition parse_acceptance_criteria :: "unicode \<Rightarrow> pystr \<Rightarrow> py_error + pystr list" where
  "parse_acceptance_criteria u criteria_text =
     (if criteria_text = [] then Inr []
      else parse_lines u (split_on newline (strip u criteria_text)))"

record Story =
  st_id :: int
  st_title :: pystr
  narrative :: pystr
  acceptance_criteria :: pystr
  st_epic_id :: "int option"
  st_priority :: int
  st_est_points :: "int option"

record Identity =
  p_task_id :: string
  p_story_id :: int
  p_epic_id :: "int option"

record Goal =
  title :: pystr
  description :: pystr
  success_criteria :: "pystr list"

record Constraints =
  file_scope :: "pystr list"
  style_rules :: "pystr list"
  forbidden :: "pystr list"

record Inputs =
  context_files :: "pystr list"
  dependencies :: "pystr list"
  retry_guidance :: "pystr list"

record Execution =
  p_max_attempts :: int
  current_attempt :: int
  timeout_seconds :: int

record ProviderContext =
  preferred_model :: "string option"
  complexity_hint :: string

record Metadata =
  created_at :: string
  source_domain :: string
  p_priority :: int
  p_est_points :: "int option"

record TaskPacket =
  identity :: Identity
  goal :: Goal
  constraints :: Constraints
  inputs :: Inputs
  execution :: Execution
  provider_context :: ProviderContext
  metadata :: Metadata

definition infer_file_scope :: "Story \<Rightarrow> pystr list" where
  "infer_file_scope story = []"

definition estimate_complexity :: "Story \<Rightarrow> string" where
  "estimate_complexity story =
     (case st_est_points story of
        None \<Rightarrow> ''medium''
      | Some points \<Rightarrow>
          if points \<le> 2 then ''low'' else if points \<le> 5 then ''medium'' else ''high'')"

text \<open>\<open>str(n)\<close> for a natural number, as used by the f-string of the title.\<close>

fun str_nat :: "nat \<Rightarrow> pystr" where
  "str_nat n = (if n < 10 then [48 + n] else str_nat (n div 10) @ [48 + n mod 10])"

text \<open>
  \<open>_create_task_packet\<close>. The two values it takes from outside the program are
  arguments: \<open>uuid\<close> is \<open>str(uuid.uuid4())\<close> and \<open>utcnow\<close> is
  \<open>datetime.utcnow().isoformat()\<close>.
\<close>

definition create_task_packet ::
  "Config \<Rightarrow> Story \<Rightarrow> pystr list \<Rightarrow> nat \<Rightarrow> string \<times> string \<Rightarrow> TaskPacket" where
  "create_task_packet cfg story criteria task_index fresh =
     (let (uuid, utcnow) = fresh;
          title0 = (if task_index > 0
                    then st_title story @ ustr '' (Part '' @ str_nat (task_index + 1) @ ustr '')''
                    else st_title story)
      in \<lparr>identity = \<lparr>p_task_id = uuid, p_story_id = st_id story, p_epic_id = st_epic_id story\<rparr>,
          goal = \<lparr>title = title0, description = narrative story, success_criteria = criteria\<rparr>,
          constraints = \<lparr>file_scope = infer_file_scope story, style_rules = [], forbidden = []\<rparr>,
          inputs = \<lparr>context_files = [], dependencies = [], retry_guidance = []\<rparr>,
          execution = \<lparr>p_max_attempts = default_max_attempts cfg, current_attempt = 0,
                       timeout_seconds = 300\<rparr>,
          provider_context = \<lparr>preferred_model = None,
                              complexity_hint = estimate_complexity story\<rparr>,
          metadata = \<lparr>created_at = utcnow @ ''Z'', source_domain = ''devbacklog'',
                      p_priority = st_priority story, p_est_points = st_est_points story\<rparr>\<rparr>)"

text \<open>
  The \<open>for i in range(0, len(criteria), 3)\<close> loop of \<open>compile\<close>, with the loop variable and
  the list \<open>tasks\<close> as arguments. \<open>fresh k\<close> is what \<open>uuid4\<close> and \<open>utcnow\<close> give to the packet
  created when \<open>k\<close> packets exist already.
\<close>

function compile_loop ::
  "Config \<Rightarrow> Story \<Rightarrow> pystr list \<Rightarrow> (nat \<Rightarrow> string \<times> string) \<Rightarrow> nat \<Rightarrow> TaskPacket list
     \<Rightarrow> TaskPacket list" where
  "compile_loop cfg story criteria fresh i tasks =
     (if i < length criteria then
        (let group = take 3 (drop i criteria);
             tasks' = (if int (length tasks) < max_tasks_per_story cfg
                       then tasks @ [create_task_packet cfg story group (i div 3)
                                       (fresh (length tasks))]
                       else tasks)
         in compile_loop cfg story criteria fresh (i + 3) tasks')
      else tasks)"
  by pat_completeness auto
termination
  by (relation "measure (\<lambda>(cfg, story, criteria, fresh, i, tasks). length criteria - i)") auto

definition compile ::
  "Config \<Rightarrow> unicode \<Rightarrow> (nat \<Rightarrow> string \<times> string) \<Rightarrow> Story \<Rightarrow> py_error + TaskPacket list" where
  "compile cfg u fresh story =
     (case parse_acceptance_criteria u (acceptance_criteria story) of
        Inl e \<Rightarrow> Inl e
      | Inr criteria \<Rightarrow>
          if length criteria \<le> 3
          then Inr [create_task_packet cfg story criteria 0 (fresh 0)]
          else Inr (compile_loop cfg story criteria fresh 0 []))"

text \<open>
  The decomposition as the specification words it, for comparison with \<open>compile\<close>: the
  list cut into consecutive groups of 3, the last group possibly shorter.
\<close>

fun chunks_of_3 :: "'a list \<Rightarrow> 'a list list" where
  "chunks_of_3 [] = []"
| "chunks_of_3 (x # xs) = take 3 (x # xs) # chunks_of_3 (drop 3 (x # xs))"

text \<open>The title that the specification gives to the packet with 0-based position \<open>i\<close>.\<close>

definition part_title :: "Story \<Rightarrow> nat \<Rightarrow> pystr" where
  "part_title story i =
     (if i = 0 then st_title story
      else st_title story @ ustr '' (Part '' @ str_nat (i + 1) @ ustr '')'')"

subsection \<open>Retry enrichment on the object store\<close>

text \<open>
  \<open>enrich_for_retry\<close> copies dicts and assigns into the copies, so what it leaves
  untouched depends on which dict objects are shared. Its packet is therefore a dict
  object in a store: a value is \<open>None\<close>, an integer, a string or a reference, and
  an object is a dict (its items in insertion order) or a list.
\<close>

datatype pyval = PNone | PInt int | PStr pystr | PRef nat

datatype pyobj = PDict "(string \<times> pyval) list" | PList "pyval list"

type_synonym store = "pyobj list"

definition deref :: "store \<Rightarrow> pyval \<Rightarrow> pyobj option" where
  "deref h v = (case v of PRef a \<Rightarrow> (if a < length h then Some (h ! a) else None) | _ \<Rightarrow> None)"

definition alloc :: "store \<Rightarrow> pyobj \<Rightarrow> store \<times> pyval" where
  "alloc h obj = (h @ [obj], PRef (length h))"

text \<open>
  \<open>x.copy()\<close>: a new object with the same items for a dict or a list (a shallow copy),
  \<open>AttributeError\<close> for the values that have no such method.
\<close>

definition copy_method :: "store \<Rightarrow> pyval \<Rightarrow> py_error + store \<times> pyval" where
  "copy_method h v = (case deref h v of None \<Rightarrow> Inl AttributeError | Some obj \<Rightarrow> Inr (alloc h obj))"

text \<open>\<open>x.get(key, {})\<close>: the default dict is allocated before the call.\<close>

definition get_or_new_dict :: "store \<Rightarrow> pyval \<Rightarrow> string \<Rightarrow> py_error + store \<times> pyval" where
  "get_or_new_dict h v key =
     (let (h1, dflt) = alloc h (PDict [])
      in case deref h1 v of
           Some (PDict items) \<Rightarrow>
             (case map_of items key of None \<Rightarrow> Inr (h1, dflt) | Some found \<Rightarrow> Inr (h1, found))
         | _ \<Rightarrow> Inl AttributeError)"

text \<open>\<open>x[key] = value\<close> with a string key: an update in place of the dict that \<open>x\<close> refers to.\<close>

definition setitem :: "store \<Rightarrow> pyval \<Rightarrow> string \<Rightarrow> pyval \<Rightarrow> py_error + store" where
  "setitem h v key val =
     (case v of
        PRef a \<Rightarrow>
          (if a < length h then
             (case h ! a of
                PDict items \<Rightarrow> Inr (h[a := PDict (AList.update key val items)])
              | PList _ \<Rightarrow> Inl TypeError)
           else Inl TypeError)
      | _ \<Rightarrow> Inl TypeError)"

text \<open>\<open>x[key]\<close> with a string key.\<close>

definition getitem :: "store \<Rightarrow> pyval \<Rightarrow> string \<Rightarrow> py_error + pyval" where
  "getitem h v key =
     (case deref h v of
        Some (PDict items) \<Rightarrow> (case map_of items key of None \<Rightarrow> Inl KeyError | Some found \<Rightarrow> Inr found)
      | _ \<Rightarrow> Inl TypeError)"

text \<open>
  \<open>enrich_for_retry\<close>, statement by statement: the store after each statement is passed to
  the next one, and the first exception ends the call.
\<close>

definition enrich_for_retry :: "store \<Rightarrow> pyval \<Rightarrow> pyval \<Rightarrow> int \<Rightarrow> py_error + store \<times> pyval" where
  "enrich_for_retry h task_packet guidance attempt_no =
     and_then (copy_method h task_packet) (\<lambda>(h1, enriched).
     and_then (get_or_new_dict h1 task_packet ''inputs'') (\<lambda>(h2, old_inputs).
     and_then (copy_method h2 old_inputs) (\<lambda>(h3, new_inputs).
     and_then (setitem h3 enriched ''inputs'' new_inputs) (\<lambda>h4.
     and_then (getitem h4 enriched ''inputs'') (\<lambda>inputs_ref.
     and_then (setitem h4 inputs_ref ''retry_guidance'' guidance) (\<lambda>h5.
     and_then (get_or_new_dict h5 task_packet ''execution'') (\<lambda>(h6, old_execution).
     and_then (copy_method h6 old_execution) (\<lambda>(h7, new_execution).
     and_then (setitem h7 enriched ''execution'' new_execution) (\<lambda>h8.
     and_then (getitem h8 enriched ''execution'') (\<lambda>execution_ref.
     and_then (setitem h8 execution_ref ''current_attempt'' (PInt attempt_no)) (\<lambda>h9.
     Inr (h9, enriched))))))))))))"

text \<open>The items of the dict that a value refers to, as a map; empty for anything else.\<close>

definition dict_of :: "store \<Rightarrow> pyval \<Rightarrow> (string \<rightharpoonup> pyval)" where
  "dict_of h v = (case deref h v of Some (PDict items) \<Rightarrow> map_of items | _ \<Rightarrow> Map.empty)"

section \<open>Concrete configurations\<close>

text \<open>The defaults of \<open>lib/config.py\<close>.\<close>

definition default_config :: Config where
  "default_config =
     \<lparr>max_tasks_per_story = 10, default_max_attempts = 3, rate_limit_cooldown = 300,
      high_load_threshold = 50\<rparr>"

text \<open>The state that \<open>_load_providers\<close> gives every provider.\<close>

definition initial_state :: "string \<Rightarrow> ProviderState" where
  "initial_state name =
     \<lparr>s_name = name, available = True, rate_limited_until = None, consecutive_failures = 0,
      last_success = None, last_failure = None\<rparr>"

definition provider_A :: ProviderDefinition where
  "provider_A =
     \<lparr>d_name = ''A'', d_priority = 1, d_type = ''api'', adapter = ''claude_cli'',
      rate_limit_strategy = ''none'', confidence_weight = Finite 1, enabled = True, d_config = []\<rparr>"

definition provider_B :: ProviderDefinition where
  "provider_B =
     \<lparr>d_name = ''B'', d_priority = 2, d_type = ''cli'', adapter = ''goose'',
      rate_limit_strategy = ''none'', confidence_weight = Finite 1, enabled = True, d_config = []\<rparr>"

definition registry_AB :: ProviderRegistry where
  "registry_AB =
     \<lparr>config = default_config, definitions = [provider_A, provider_B],
      states = [''A'' \<mapsto> initial_state ''A'', ''B'' \<mapsto> initial_state ''B'']\<rparr>"

definition provider_L :: ProviderDefinition where
  "provider_L =
     \<lparr>d_name = ''L'', d_priority = 2, d_type = ''local'', adapter = ''ollama'',
      rate_limit_strategy = ''none'', confidence_weight = Finite 1, enabled = True, d_config = []\<rparr>"

definition registry_AL :: ProviderRegistry where
  "registry_AL =
     \<lparr>config = default_config, definitions = [provider_A, provider_L],
      states = [''A'' \<mapsto> initial_state ''A'', ''L'' \<mapsto> initial_state ''L'']\<rparr>"

text \<open>The registry of A and B under a configured cooldown of \<open>10^12\<close> seconds.\<close>

definition registry_far :: ProviderRegistry where
  "registry_far = registry_AB\<lparr>config := default_config\<lparr>rate_limit_cooldown := 10 ^ 12\<rparr>\<rparr>"

text \<open>
  Two providers whose exact scores would tie at 1/2: priority 49 with weight 49.0, and
  priority 50 with weight 50.0.
\<close>

definition provider_P :: ProviderDefinition where
  "provider_P =
     \<lparr>d_name = ''P'', d_priority = 49, d_type = ''api'', adapter = ''claude_cli'',
      rate_limit_strategy = ''none'', confidence_weight = Finite 49, enabled = True,
      d_config = []\<rparr>"

definition provider_Q :: ProviderDefinition where
  "provider_Q =
     \<lparr>d_name = ''Q'', d_priority = 50, d_type = ''cli'', adapter = ''goose'',
      rate_limit_strategy = ''none'', confidence_weight = Finite 50, enabled = True,
      d_config = []\<rparr>"

definition registry_PQ :: ProviderRegistry where
  "registry_PQ =
     \<lparr>config = default_config, definitions = [provider_P, provider_Q],
      states = [''P'' \<mapsto> initial_state ''P'', ''Q'' \<mapsto> initial_state ''Q'']\<rparr>"

definition failure_bundle :: "string \<Rightarrow> ArtifactBundle" where
  "failure_bundle name =
     \<lparr>b_task_id = ''t1'', provider = name, execution_status = ''failure'', files_modified = [],
      diff_summary = None, logs = None, duration_ms = None, artifacts_path = None,
      error = Some ''exit status 1'', is_rate_limit = False\<rparr>"

text \<open>The first second of 2025, as seconds since \<open>datetime.min\<close>.\<close>

definition new_year_2025 :: timestamp where
  "new_year_2025 = 63871286400"

text \<open>
  A world in which the QA service answers every call, reports no load and has no
  statistics yet, and every adapter fails its task.
\<close>

definition quiet_world :: world where
  "quiet_world =
     \<lparr>now_available = new_year_2025, total_active = Some 0, now_local = new_year_2025,
      provider_stats = Some Map.empty, start_run_ok = True, generate = failure_bundle,
      complete_run_ok = True, now_report = new_year_2025 + 1, now_cooldown = new_year_2025 + 1,
      sort_choice = (\<lambda>scored. 0)\<rparr>"

definition busy_world :: world where
  "busy_world = quiet_world\<lparr>total_active := Some 100\<rparr>"


definition registry_empty :: ProviderRegistry where
  "registry_empty = \<lparr>config = default_config, definitions = [], states = Map.empty\<rparr>"

text \<open>
  A provider whose adapter identifier is none of the three classes, alone in its
  registry; and the local provider L alone in its registry.
\<close>

definition provider_X :: ProviderDefinition where
  "provider_X =
     \<lparr>d_name = ''X'', d_priority = 1, d_type = ''cli'', adapter = ''custom'',
      rate_limit_strategy = ''none'', confidence_weight = Finite 1, enabled = True, d_config = []\<rparr>"

definition registry_X :: ProviderRegistry where
  "registry_X =
     \<lparr>config = default_config, definitions = [provider_X],
      states = [''X'' \<mapsto> initial_state ''X'']\<rparr>"

definition registry_L :: ProviderRegistry where
  "registry_L =
     \<lparr>config = default_config, definitions = [provider_L],
      states = [''L'' \<mapsto> initial_state ''L'']\<rparr>"

text \<open>
  What \<open>OllamaProvider.generate\<close> returns on a host without the \<open>ollama\<close> package
  (lines 33 to 39 of \<open>lib/providers/ollama.py\<close>), and a world in which every adapter
  answers so.
\<close>

definition not_installed_bundle :: "string \<Rightarrow> ArtifactBundle" where
  "not_installed_bundle name =
     \<lparr>b_task_id = ''t1'', provider = name, execution_status = ''provider_failure'',
      files_modified = [], diff_summary = None, logs = None, duration_ms = None,
      artifacts_path = None, error = Some ''ollama package not installed'',
      is_rate_limit = False\<rparr>"

definition not_installed_world :: world where
  "not_installed_world = quiet_world\<lparr>generate := not_installed_bundle\<rparr>"

text \<open>
  A world sequence for the registry of A and B: in the first iteration A answers
  \<open>provider_failure\<close> without a rate limit, afterwards every adapter fails its task.
\<close>

definition failover_env :: "nat \<Rightarrow> world" where
  "failover_env k = (if k = 0 then not_installed_world else quiet_world)"


definition not_installed_env :: "nat \<Rightarrow> world" where
  "not_installed_env k = not_installed_world"

text \<open>
  The two character tables on ASCII, where \<open>isspace\<close> holds of the codes 9 to 13, 28 to 31
  and 32 and \<open>isdigit\<close> of the codes 48 to 57; for texts without other whitespace or digits.
\<close>

definition ascii_tables :: unicode where
  "ascii_tables =
     \<lparr>isspace = (\<lambda>c. (9 \<le> c \<and> c \<le> 13) \<or> (28 \<le> c \<and> c \<le> 32)),
      isdigit = (\<lambda>c. 48 \<le> c \<and> c \<le> 57)\<rparr>"

definition example_fresh :: "nat \<Rightarrow> string \<times> string" where
  "example_fresh k = (''uuid-'' @ map char_of (str_nat k), ''2024-01-01T00:00:00.000000'')"

text \<open>
  Three stories with the title \<open>T\<close>: without acceptance criteria, with bullets and blank
  lines only, and with seven criteria \<open>c1\<close> to \<open>c7\<close> (bulleted, numbered or plain).
\<close>

definition story_with :: "pystr \<Rightarrow> Story" where
  "story_with criteria_text =
     \<lparr>st_id = 7, st_title = ustr ''T'', narrative = ustr ''As a user'',
      acceptance_criteria = criteria_text, st_epic_id = None, st_priority = 1,
      st_est_points = Some 3\<rparr>"

definition bullets_only :: pystr where
  "bullets_only = ustr ''  '' @ [newline] @ ustr ''- '' @ [newline] @ [8226] @ [newline] @ ustr '' * ''"

definition seven_criteria :: pystr where
  "seven_criteria =
     ustr ''- c1'' @ [newline] @ ustr ''* c2'' @ [newline] @ ustr ''1. c3'' @ [newline] @
     ustr ''c4'' @ [newline] @ [10003] @ ustr '' c5'' @ [newline] @ [newline] @
     ustr ''12. c6'' @ [newline] @ ustr ''  c7  ''"

text \<open>
  A store holding one packet as \<open>_create_task_packet\<close> builds it (the dict at address 14,
  its seven groups at 7 to 13, their lists at 0 to 6) and, at address 15, a list with
  one guidance string.
\<close>

definition packet_store :: store where
  "packet_store =
     [PList [PStr (ustr ''c1''), PStr (ustr ''c2'')],
      PList [], PList [], PList [],
      PList [], PList [], PList [],
      PDict [(''task_id'', PStr (ustr ''uuid-0'')), (''story_id'', PInt 7), (''epic_id'', PNone)],
      PDict [(''title'', PStr (ustr ''T'')), (''description'', PStr (ustr ''As a user'')),
             (''success_criteria'', PRef 0)],
      PDict [(''file_scope'', PRef 1), (''style_rules'', PRef 2), (''forbidden'', PRef 3)],
      PDict [(''context_files'', PRef 4), (''dependencies'', PRef 5), (''retry_guidance'', PRef 6)],
      PDict [(''max_attempts'', PInt 3), (''current_attempt'', PInt 0),
             (''timeout_seconds'', PInt 300)],
      PDict [(''preferred_model'', PNone), (''complexity_hint'', PStr (ustr ''medium''))],
      PDict [(''created_at'', PStr (ustr ''2024-01-01T00:00:00.000000Z'')),
             (''source_domain'', PStr (ustr ''devbacklog'')), (''priority'', PInt 1),
             (''est_points'', PInt 3)],
      PDict [(''identity'', PRef 7), (''goal'', PRef 8), (''constraints'', PRef 9),
             (''inputs'', PRef 10), (''execution'', PRef 11), (''provider_context'', PRef 12),
             (''metadata'', PRef 13)],
      PList [PStr (ustr ''make the test pass'')]]"

section \<open>Properties of the float model\<close>

text \<open>
  \<open>1.0 / n\<close> raises for 0 and for the integers that have no float; it is defined for
  every other \<open>n\<close>, that is for \<open>0 < |n| < 2^1024 - 2^970\<close>.
\<close>

lemma pow2_pos: "0 < pow2 n"
  by (simp add: pow2_def)

lemma pow2_powi: "pow2 n = 2 powi n"
  by (simp add: pow2_def power_int_def inverse_eq_divide power_one_over)

lemma pow2_add: "pow2 (a + b) = pow2 a * pow2 b"
  by (simp add: pow2_powi power_int_add)

text \<open>Powers of two by repeated squaring, for evaluation.\<close>

lemma pow2_code [code]:
  "pow2 n = (if n = 0 then 1
             else if n < 0 then 1 / pow2 (- n)
             else if even n then (let h = pow2 (n div 2) in h * h)
             else 2 * pow2 (n - 1))"
proof -
  have neg: "pow2 n = 1 / pow2 (- n)"
    by (simp add: pow2_powi power_int_minus inverse_eq_divide)
  have ev: "pow2 n = pow2 (n div 2) * pow2 (n div 2)" if "even n"
  proof -
    have "n = n div 2 + n div 2" using that by presburger
    then show ?thesis using pow2_add [of "n div 2" "n div 2"] by simp
  qed
  have od: "pow2 n = 2 * pow2 (n - 1)"
    using pow2_add [of 1 "n - 1"] by (simp add: pow2_def)
  show ?thesis
  proof (cases "n = 0")
    case True
    then show ?thesis by (simp add: pow2_def)
  next
    case nz: False
    show ?thesis
    proof (cases "n < 0")
      case True
      show ?thesis unfolding if_not_P [OF nz] if_P [OF True] by (rule neg)
    next
      case pos: False
      show ?thesis
      proof (cases "even n")
        case True
        show ?thesis
          unfolding if_not_P [OF nz] if_not_P [OF pos] if_P [OF True] Let_def
          by (rule ev [OF True])
      next
        case False
        show ?thesis
          unfolding if_not_P [OF nz] if_not_P [OF pos] if_not_P [OF False] by (rule od)
      qed
    qed
  qed
qed

lemma pow2_mono: "a \<le> b \<Longrightarrow> pow2 a \<le> pow2 b"
  by (simp add: pow2_powi power_int_increasing)

lemma pow2_nat: "0 \<le> n \<Longrightarrow> pow2 n = of_int (2 ^ nat n)"
  by (simp add: pow2_def)

lemma round_half_even_le:
  assumes "x < of_int j + 1 / 2"
  shows "round_half_even x \<le> j"
proof -
  have "x < of_int (j + 1)" using assms by simp
  then have "\<lfloor>x\<rfloor> < j + 1" by (simp only: floor_less_iff)
  then have fl: "\<lfloor>x\<rfloor> \<le> j" by simp
  have "\<lfloor>x\<rfloor> + 1 \<le> j" if "1 / 2 \<le> x - of_int \<lfloor>x\<rfloor>"
  proof -
    have "of_int \<lfloor>x\<rfloor> < (of_int j :: rat)" using that assms by linarith
    then show ?thesis by simp
  qed
  then show ?thesis using fl
    by (auto simp: round_half_even_def Let_def)
qed

lemma half_more: "(x::rat) < a \<Longrightarrow> x < a + 1 / 2"
  by simp

lemma round_half_even_ge: "\<lfloor>x\<rfloor> \<le> round_half_even x"
  by (simp add: round_half_even_def Let_def)

lemma ilog2_of_int:
  assumes "0 < k"
  shows "ilog2 (of_int k) = bitlen k - 1" and "pow2 (bitlen k - 1) \<le> of_int k"
proof -
  have b: "2 ^ nat (bitlen k - 1) \<le> k" using bitlen_bounds [OF assms] by simp
  have pos: "0 < bitlen k" using assms bitlen_eq_zero_iff [of k] bitlen_nonneg [of k] by linarith
  have "pow2 (bitlen k - 1) = of_int (2 ^ nat (bitlen k - 1))" using pos by (simp add: pow2_nat)
  also have "\<dots> \<le> (of_int k :: rat)" using b by (simp only: of_int_le_iff)
  finally show le: "pow2 (bitlen k - 1) \<le> of_int k" .
  have "bitlen 1 = 1" by (simp add: bitlen_alt_def)
  then show "ilog2 (of_int k) = bitlen k - 1"
    using le by (simp add: ilog2_def Let_def)
qed

lemma round_double_of_int:
  assumes "0 < k" "k < 2 ^ 1024 - 2 ^ 970"
  shows "\<exists>y. 0 < y \<and> round_double (of_int k) = Finite y \<and> round_double (- of_int k) = Finite (- y)"
proof -
  define e where "e = bitlen k - 1"
  define q where "q = pow2 (e - 52)"
  define r where "r = round_half_even (of_int k / q)"
  define y where "y = of_int r * q"
  have pos: "0 < bitlen k" using assms bitlen_eq_zero_iff [of k] bitlen_nonneg [of k] by linarith
  then have e0: "0 \<le> e" by (simp add: e_def)
  have "k < 2 ^ nat 1024" using assms by simp
  then have "bitlen k \<le> 1024" by (simp only: bitlen_le_iff_power) simp
  then have e1: "e \<le> 1023" by (simp add: e_def)
  have low: "pow2 e \<le> of_int k" unfolding e_def by (rule ilog2_of_int [OF assms(1)])
  have il: "ilog2 (of_int k) = e" unfolding e_def by (rule ilog2_of_int [OF assms(1)])
  have q0: "0 < q" by (simp add: q_def pow2_pos)
  have "e - 52 \<le> e" by simp
  then have "q \<le> pow2 e" unfolding q_def by (rule pow2_mono)
  then have "q \<le> of_int k" using low by simp
  then have "1 \<le> of_int k / q" using q0 by (simp add: le_divide_eq)
  then have "1 \<le> \<lfloor>of_int k / q\<rfloor>" by (simp add: le_floor_iff)
  then have r1: "1 \<le> r" using round_half_even_ge [of "of_int k / q"] unfolding r_def by linarith
  then have y0: "0 < y" using q0 by (simp add: y_def)
  have up: "k < 2 ^ nat (e + 1)" using bitlen_bounds [OF assms(1)] by (simp add: e_def)
  have "e + 1 = 53 + (e - 52)" by simp
  then have splitq: "pow2 (e + 1) = pow2 53 * q"
    unfolding q_def by (simp only: pow2_add)
  have y1: "y < pow2 1024"
  proof (cases "e \<le> 1022")
    case True
    have "(of_int k :: rat) < of_int (2 ^ nat (e + 1))" using up by (simp only: of_int_less_iff)
    also have "\<dots> = pow2 (e + 1)" using e0 by (simp add: pow2_nat)
    also have "\<dots> = pow2 53 * q" by (rule splitq)
    finally have "of_int k / q < pow2 53" using q0 by (simp add: divide_less_eq)
    also have "pow2 53 = of_int (2 ^ 53)" by (simp add: pow2_def)
    finally have "of_int k / q < of_int (2 ^ 53) + 1 / 2" by (rule half_more)
    then have "r \<le> 2 ^ 53" unfolding r_def by (rule round_half_even_le)
    then have "(of_int r :: rat) \<le> of_int (2 ^ 53)" by (simp only: of_int_le_iff)
    also have "\<dots> = pow2 53" by (simp add: pow2_def)
    finally have "y \<le> pow2 53 * q" using q0 by (simp add: y_def)
    also have "\<dots> = pow2 (e + 1)" by (rule splitq [symmetric])
    also have "\<dots> \<le> pow2 1023" using True by (intro pow2_mono) simp
    also have "\<dots> < pow2 1024" by (simp add: pow2_def)
    finally show ?thesis .
  next
    case False
    then have e: "e = 1023" using e1 by simp
    have q: "q = of_int (2 ^ 971)" by (simp add: q_def e pow2_def)
    have "(of_int k :: rat) < of_int (2 ^ 1024 - 2 ^ 970)"
      using assms(2) by (simp only: of_int_less_iff)
    also have "\<dots> = (of_int (2 ^ 53 - 1) + 1 / 2) * q"
      unfolding q by simp
    finally have "of_int k / q < of_int (2 ^ 53 - 1) + 1 / 2"
      using q0 by (simp add: divide_less_eq)
    then have "r \<le> 2 ^ 53 - 1" unfolding r_def by (rule round_half_even_le)
    then have "(of_int r :: rat) \<le> of_int (2 ^ 53 - 1)" by (simp only: of_int_le_iff)
    then have "y \<le> of_int (2 ^ 53 - 1) * q" using q0 by (simp add: y_def)
    also have "\<dots> < pow2 1024" unfolding q by (simp add: pow2_def)
    finally show ?thesis .
  qed
  have "max e (- 1022) = e" using e0 by simp
  then have "round_double (of_int k) = Finite y" "round_double (- of_int k) = Finite (- y)"
    using assms(1) y1 il
    by (simp_all add: round_double_def Let_def y_def r_def q_def)
  with y0 show ?thesis by blast
qed

lemma one_over_defined:
  assumes "n \<noteq> 0" "\<bar>n\<bar> < 2 ^ 1024 - 2 ^ 970"
  shows "\<exists>v. one_over n = Inr v"
proof -
  have k: "0 < \<bar>n\<bar>" using assms(1) by simp
  from round_double_of_int [OF k assms(2)] obtain y where
    y: "0 < y" "round_double (of_int \<bar>n\<bar>) = Finite y" "round_double (- of_int \<bar>n\<bar>) = Finite (- y)"
    by blast
  show ?thesis
  proof (cases "0 < n")
    case True
    then show ?thesis using y by (simp add: one_over_def)
  next
    case False
    then have "of_int n = - (of_int \<bar>n\<bar> :: rat)" by simp
    then show ?thesis using y by (simp add: one_over_def)
  qed
qed

text \<open>
  The float products are not the exact ones: \<open>(1.0 / 49) * 0.5 * 49.0\<close> is the float
  below 0.5, while \<open>(1.0 / 50) * 0.5 * 50.0\<close> is 0.5.
\<close>

lemma float_examples:
  "score_loop Map.empty [provider_P, provider_Q] =
     Inr [(provider_P, Finite (9007199254740991 / 18014398509481984)),
          (provider_Q, Finite (1 / 2))]"
  "one_over 0 = Inl ZeroDivisionError"
  by code_simp+

section \<open>Properties of the provider registry\<close>

text \<open>
  C6, as the code behaves: one call \<open>mark_failure(name, is_rate_limit=True)\<close> on a
  provider without earlier failures, made in the first second of 2025 under the default
  cooldown of 300 seconds, raises nothing, records the last failure and sets the cooldown
  from the configured default, but leaves \<open>consecutive_failures\<close> at 2, not 1: the
  counter is incremented in \<open>mark_failure\<close> and once more in the \<open>mark_rate_limited\<close> it
  calls.
\<close>

theorem mark_failure_rate_limit_counts_twice:
  "snd (mark_failure registry_AB 63871286400 63871286401 ''A'' True) = None \<and>
   states (fst (mark_failure registry_AB 63871286400 63871286401 ''A'' True)) ''A'' =
     Some ((initial_state ''A'')\<lparr>last_failure := Some 63871286400,
                                rate_limited_until := Some 63871286701,
                                consecutive_failures := 2\<rparr>)"
  by (simp add: mark_failure_def mark_rate_limited_def py_or_def registry_AB_def
      default_config_def initial_state_def and_then_def timedelta_seconds_def datetime_add_def
      datetime_max_def)

lemma mark_rate_limited_cases:
  assumes "states reg name = Some st"
  shows "mark_rate_limited reg now name cooldown =
           (let c = py_or cooldown (rate_limit_cooldown (config reg))
            in if - 999999999 \<le> c div 86400 \<and> c div 86400 \<le> 999999999 \<and>
                  0 \<le> now + real_of_int c \<and> now + real_of_int c \<le> datetime_max
               then (reg\<lparr>states := (states reg)(name \<mapsto>
                          st\<lparr>rate_limited_until := Some (now + real_of_int c),
                             consecutive_failures := consecutive_failures st + 1\<rparr>)\<rparr>, None)
               else (reg, Some OverflowError))"
  using assms
  by (simp add: mark_rate_limited_def Let_def and_then_def timedelta_seconds_def datetime_add_def)

text \<open>
  C10 as stated fails for a large configured cooldown: in the registry whose
  \<open>rate_limit_cooldown\<close> is \<open>10^12\<close> seconds, \<open>mark_rate_limited('A', cooldown_seconds=0)\<close>
  in the first second of 2025 raises \<open>OverflowError\<close> (the sum is no \<open>datetime\<close>) and leaves
  \<open>rate_limited_until\<close> unset, where the claim has it set to now plus the default.
\<close>

theorem zero_cooldown_overflow_counterexample:
  "states registry_far ''A'' = Some (initial_state ''A'') \<and>
   mark_rate_limited registry_far new_year_2025 ''A'' (Some 0) = (registry_far, Some OverflowError) \<and>
   rate_limited_until (initial_state ''A'') = None \<and>
   rate_limited_until (initial_state ''A'') \<noteq>
     Some (new_year_2025 + real_of_int (rate_limit_cooldown (config registry_far)))"
  by (simp add: mark_rate_limited_def py_or_def registry_far_def registry_AB_def
      default_config_def initial_state_def and_then_def timedelta_seconds_def datetime_add_def
      datetime_max_def new_year_2025_def)

text \<open>
  C10, amended: for a known provider, \<open>mark_rate_limited(name, cooldown_seconds=0)\<close> does
  what the call without a cooldown does. With \<open>c\<close> the configured \<open>rate_limit_cooldown\<close>: if
  \<open>c\<close> is a \<open>timedelta\<close> (its whole days \<open>c // 86400\<close> are at most 999999999 in magnitude)
  and the time of the call plus \<open>c\<close> seconds is a \<open>datetime\<close> (between \<open>datetime.min\<close> and
  \<open>datetime.max\<close>), the call raises nothing, \<open>rate_limited_until\<close> becomes the time of the
  call plus \<open>c\<close> seconds, \<open>consecutive_failures\<close> goes up by one and nothing else changes;
  otherwise the call raises \<open>OverflowError\<close> and changes nothing.
\<close>

theorem mark_rate_limited_zero_cooldown:
  assumes "states reg name = Some st"
  shows "mark_rate_limited reg now name (Some 0) = mark_rate_limited reg now name None \<and>
         (let c = rate_limit_cooldown (config reg)
          in (- 999999999 \<le> c div 86400 \<and> c div 86400 \<le> 999999999 \<and>
              0 \<le> now + real_of_int c \<and> now + real_of_int c \<le> datetime_max \<longrightarrow>
                mark_rate_limited reg now name (Some 0) =
                  (reg\<lparr>states := (states reg)(name \<mapsto>
                      st\<lparr>rate_limited_until := Some (now + real_of_int c),
                         consecutive_failures := consecutive_failures st + 1\<rparr>)\<rparr>, None)) \<and>
             (\<not> (- 999999999 \<le> c div 86400 \<and> c div 86400 \<le> 999999999 \<and>
                 0 \<le> now + real_of_int c \<and> now + real_of_int c \<le> datetime_max) \<longrightarrow>
                mark_rate_limited reg now name (Some 0) = (reg, Some OverflowError)))"
  unfolding mark_rate_limited_cases [OF assms] by (simp add: py_or_def Let_def)

text \<open>
  The theorem at two inputs: in the registry of A and B with the default cooldown, a
  call in the first second of 2025 sets the cooldown to end 300 seconds later; in the
  registry with a cooldown of \<open>10^12\<close> seconds the call raises and changes nothing.
\<close>

theorem mark_rate_limited_zero_cooldown_witness:
  "states registry_AB ''A'' = Some (initial_state ''A'') \<and>
   snd (mark_rate_limited registry_AB 63871286400 ''A'' (Some 0)) = None \<and>
   states (fst (mark_rate_limited registry_AB 63871286400 ''A'' (Some 0))) ''A'' =
     Some ((initial_state ''A'')\<lparr>rate_limited_until := Some 63871286700,
                                consecutive_failures := 1\<rparr>) \<and>
   states registry_far ''A'' = Some (initial_state ''A'') \<and>
   mark_rate_limited registry_far 63871286400 ''A'' (Some 0) = (registry_far, Some OverflowError)"
proof -
  have known: "states registry_AB ''A'' = Some (initial_state ''A'')"
    by (simp add: registry_AB_def)
  have known_far: "states registry_far ''A'' = Some (initial_state ''A'')"
    by (simp add: registry_far_def registry_AB_def)
  have in_range: "- 999999999 \<le> rate_limit_cooldown (config registry_AB) div 86400 \<and>
      rate_limit_cooldown (config registry_AB) div 86400 \<le> 999999999 \<and>
      0 \<le> 63871286400 + real_of_int (rate_limit_cooldown (config registry_AB)) \<and>
      63871286400 + real_of_int (rate_limit_cooldown (config registry_AB)) \<le> datetime_max"
    by (simp add: registry_AB_def default_config_def datetime_max_def)
  have outside: "\<not> (- 999999999 \<le> rate_limit_cooldown (config registry_far) div 86400 \<and>
      rate_limit_cooldown (config registry_far) div 86400 \<le> 999999999 \<and>
      0 \<le> 63871286400 + real_of_int (rate_limit_cooldown (config registry_far)) \<and>
      63871286400 + real_of_int (rate_limit_cooldown (config registry_far)) \<le> datetime_max)"
    by (simp add: registry_far_def registry_AB_def default_config_def datetime_max_def)
  note ok = mark_rate_limited_zero_cooldown [OF known, of 63871286400, THEN conjunct2,
      unfolded Let_def, THEN conjunct1, rule_format, OF in_range]
  note raised = mark_rate_limited_zero_cooldown [OF known_far, of 63871286400, THEN conjunct2,
      unfolded Let_def, THEN conjunct2, rule_format, OF outside]
  have none: "snd (mark_rate_limited registry_AB 63871286400 ''A'' (Some 0)) = None"
    unfolding ok by simp
  have state: "states (fst (mark_rate_limited registry_AB 63871286400 ''A'' (Some 0))) ''A'' =
     Some ((initial_state ''A'')\<lparr>rate_limited_until := Some 63871286700,
                                consecutive_failures := 1\<rparr>)"
    unfolding ok by (simp add: registry_AB_def default_config_def initial_state_def)
  show ?thesis
    by (intro conjI known none state known_far raised)
qed

section \<open>Properties of the provider selector\<close>

lemmas selector_defs =
  select_def get_available_providers_def get_enabled_providers_def get_local_providers_def
  untried_or_all_def load_preference_def is_high_load_def score_providers_def refresh_stats_def

lemmas example_defs =
  registry_AB_def registry_AL_def registry_empty_def provider_A_def provider_B_def
  provider_L_def initial_state_def default_config_def new_context_def quiet_world_def
  busy_world_def failure_bundle_def new_year_2025_def

lemma score_loop_fst: "score_loop cached ps = Inr sc \<Longrightarrow> map fst sc = ps"
  by (induction ps arbitrary: sc) (auto simp: Let_def split: if_splits sum.splits)

lemma score_loop_total:
  "\<forall>p\<in>set ps. \<exists>v. one_over (d_priority p) = Inr v \<Longrightarrow> \<exists>sc. score_loop cached ps = Inr sc"
  by (induction ps) (auto simp: Let_def)

lemma set_insert_desc: "set (insert_desc x ys) = insert x (set ys)"
  by (induction ys) auto

lemma set_sort_desc: "set (sort_desc scored) = set scored"
  by (induction scored) (simp_all add: sort_desc_def set_insert_desc)

lemma first_ranked_member: "first_ranked w scored = Inr best \<Longrightarrow> best \<in> set scored"
proof -
  assume a: "first_ranked w scored = Inr best"
  then have ne: "scored \<noteq> []" by (auto simp: first_ranked_def)
  show ?thesis
  proof (cases "NaN \<in> snd ` set scored")
    case True
    then have "best = scored ! (sort_choice w scored mod length scored)"
      using a ne by (simp add: first_ranked_def)
    then show ?thesis using ne by simp
  next
    case False
    then obtain rest where "sort_desc scored = best # rest"
      using a ne by (auto simp: first_ranked_def split: list.splits)
    then have "best \<in> set (sort_desc scored)" by simp
    then show ?thesis by (simp only: set_sort_desc)
  qed
qed

lemma first_ranked_total: "scored \<noteq> [] \<Longrightarrow> \<exists>best. first_ranked w scored = Inr best"
proof -
  assume ne: "scored \<noteq> []"
  have "set (sort_desc scored) \<noteq> {}" using ne by (simp only: set_sort_desc) simp
  then have "sort_desc scored \<noteq> []" by auto
  then show ?thesis using ne by (auto simp: first_ranked_def split: list.splits)
qed

lemma first_ranked_single: "first_ranked w [x] = Inr x"
  by (simp add: first_ranked_def sort_desc_def)

lemma set_load_preference: "set (load_preference cfg reg w cs) \<subseteq> set cs"
  by (auto simp: load_preference_def Let_def split: sum.splits if_splits)

lemma load_preference_nonempty: "cs \<noteq> [] \<Longrightarrow> load_preference cfg reg w cs \<noteq> []"
  by (auto simp: load_preference_def Let_def split: sum.splits if_splits)

lemma set_untried_or_all: "set (untried_or_all ctx avail) \<subseteq> set avail"
  by (auto simp: untried_or_all_def Let_def)

lemma untried_or_all_nonempty: "avail \<noteq> [] \<Longrightarrow> untried_or_all ctx avail \<noteq> []"
  by (auto simp: untried_or_all_def Let_def)

lemma untried_or_all_fresh:
  assumes "\<exists>p\<in>set avail. d_name p \<notin> set (providers_tried ctx)"
  shows "\<forall>p\<in>set (untried_or_all ctx avail). d_name p \<notin> set (providers_tried ctx)"
  using assms by (auto simp: untried_or_all_def Let_def filter_empty_conv)

lemma untried_or_all_fallback:
  assumes "\<forall>p\<in>set avail. d_name p \<in> set (providers_tried ctx)"
  shows "untried_or_all ctx avail = avail"
  using assms by (auto simp: untried_or_all_def Let_def filter_empty_conv)

text \<open>The cache that \<open>select\<close> leaves, when refreshing it changes nothing.\<close>

lemma select_pair:
  assumes "snd (select cfg reg cached w ctx) = r" "refresh_stats cached w = cached"
  shows "select cfg reg cached w ctx = (cached, r)"
proof -
  have "fst (select cfg reg cached w ctx) = cached"
    using assms(2) by (auto simp: select_def Let_def score_providers_def split: sum.splits)
  with assms(1) show ?thesis by (metis prod.collapse)
qed

lemma refresh_quiet:
  "refresh_stats Map.empty quiet_world = Map.empty"
  "refresh_stats Map.empty busy_world = Map.empty"
  by (simp_all add: refresh_stats_def quiet_world_def busy_world_def)

text \<open>Whatever \<open>select\<close> returns was a candidate after the load check.\<close>

lemma select_Some_member:
  assumes "get_available_providers reg (now_available w) = Inr avail"
    and "select cfg reg cached w ctx = (c, Inr (Some p))"
  shows "p \<in> set (load_preference cfg reg w (untried_or_all ctx avail))"
proof -
  let ?cs = "load_preference cfg reg w (untried_or_all ctx avail)"
  from assms obtain sc best where
    sc: "score_loop (refresh_stats cached w) ?cs = Inr sc"
    and best: "first_ranked w sc = Inr best" and p: "p = fst best"
    by (auto simp: select_def Let_def score_providers_def split: if_splits sum.splits)
  have "best \<in> set sc" using best by (rule first_ranked_member)
  then have "fst best \<in> set (map fst sc)" by force
  then show ?thesis using score_loop_fst [OF sc] p by simp
qed

text \<open>With candidates whose priority can be inverted, \<open>select\<close> returns a provider.\<close>

lemma select_total:
  assumes av: "get_available_providers reg (now_available w) = Inr avail"
    and ne: "avail \<noteq> []"
    and prio: "\<forall>p\<in>set (load_preference cfg reg w (untried_or_all ctx avail)).
                 \<exists>v. one_over (d_priority p) = Inr v"
  shows "\<exists>p. select cfg reg cached w ctx = (refresh_stats cached w, Inr (Some p))"
proof -
  let ?cs = "load_preference cfg reg w (untried_or_all ctx avail)"
  have cs: "?cs \<noteq> []"
    using ne by (simp add: untried_or_all_nonempty load_preference_nonempty)
  obtain sc where sc: "score_loop (refresh_stats cached w) ?cs = Inr sc"
    using score_loop_total [OF prio] by blast
  have "sc \<noteq> []"
    using score_loop_fst [OF sc] cs by auto
  then obtain best where "first_ranked w sc = Inr best"
    using first_ranked_total by blast
  then show ?thesis
    using av ne sc by (simp add: select_def Let_def score_providers_def untried_or_all_nonempty)
qed

lemma select_None_iff:
  assumes av: "get_available_providers reg (now_available w) = Inr avail"
  shows "(\<exists>c. select cfg reg cached w ctx = (c, Inr None)) \<longleftrightarrow> avail = []"
  using av
  by (auto simp: select_def Let_def score_providers_def untried_or_all_nonempty untried_or_all_def
      split: sum.splits)

text \<open>
  C5: let \<open>avail\<close> be the available providers when \<open>select\<close> is called. If some
  available provider has not been tried, whatever provider \<open>select\<close> returns is an
  available one that has not been tried, also under high load. If all of them have
  been tried, the candidates are the whole available list and \<open>select\<close> answers as it
  does for a context with nothing tried. \<open>select\<close> returns \<open>None\<close> exactly when no
  provider is available, and it does return a provider when some are available and
  every priority \<open>n\<close> can be inverted: \<open>n\<close> is not 0 and \<open>|n| < 2^1024 - 2^970\<close>, the
  inputs on which \<open>1.0 / n\<close> raises nothing.
\<close>

theorem select_exclusion:
  assumes av: "get_available_providers reg (now_available w) = Inr avail"
  shows "((\<exists>q\<in>set avail. d_name q \<notin> set (providers_tried ctx)) \<longrightarrow>
            (\<forall>c p. select cfg reg cached w ctx = (c, Inr (Some p)) \<longrightarrow>
               p \<in> set avail \<and> d_name p \<notin> set (providers_tried ctx))) \<and>
         ((\<forall>q\<in>set avail. d_name q \<in> set (providers_tried ctx)) \<longrightarrow>
            untried_or_all ctx avail = avail \<and>
            select cfg reg cached w ctx = select cfg reg cached w (ctx\<lparr>providers_tried := []\<rparr>)) \<and>
         ((\<exists>c. select cfg reg cached w ctx = (c, Inr None)) \<longleftrightarrow> avail = []) \<and>
         (avail \<noteq> [] \<and>
          (\<forall>q\<in>set avail. d_priority q \<noteq> 0 \<and> \<bar>d_priority q\<bar> < 2 ^ 1024 - 2 ^ 970) \<longrightarrow>
            (\<exists>c p. select cfg reg cached w ctx = (c, Inr (Some p))))"
proof (intro conjI impI allI)
  fix c p
  assume fresh: "\<exists>q\<in>set avail. d_name q \<notin> set (providers_tried ctx)"
    and sel: "select cfg reg cached w ctx = (c, Inr (Some p))"
  have mem: "p \<in> set (untried_or_all ctx avail)"
    using select_Some_member [OF av sel] set_load_preference by blast
  show "p \<in> set avail" using mem set_untried_or_all by blast
  show "d_name p \<notin> set (providers_tried ctx)"
    using mem untried_or_all_fresh [OF fresh] by blast
next
  assume all: "\<forall>q\<in>set avail. d_name q \<in> set (providers_tried ctx)"
  show fb: "untried_or_all ctx avail = avail" by (rule untried_or_all_fallback [OF all])
  have "untried_or_all (ctx\<lparr>providers_tried := []\<rparr>) avail = avail"
    by (simp add: untried_or_all_def)
  with fb show "select cfg reg cached w ctx = select cfg reg cached w (ctx\<lparr>providers_tried := []\<rparr>)"
    by (simp add: select_def av)
next
  show "(\<exists>c. select cfg reg cached w ctx = (c, Inr None)) \<longleftrightarrow> avail = []"
    by (rule select_None_iff [OF av])
next
  assume h: "avail \<noteq> [] \<and>
    (\<forall>q\<in>set avail. d_priority q \<noteq> 0 \<and> \<bar>d_priority q\<bar> < 2 ^ 1024 - 2 ^ 970)"
  have "\<forall>q\<in>set avail. \<exists>v. one_over (d_priority q) = Inr v"
    using h one_over_defined by blast
  then have "\<forall>p\<in>set (load_preference cfg reg w (untried_or_all ctx avail)).
               \<exists>v. one_over (d_priority p) = Inr v"
    using set_load_preference set_untried_or_all by blast
  then show "\<exists>c p. select cfg reg cached w ctx = (c, Inr (Some p))"
    using select_total [OF av] h by blast
qed


lemma local_type:
  assumes "get_local_providers reg t = Inr local" "p \<in> set local"
  shows "d_type p = ''local''"
  using assms by (auto simp: get_local_providers_def split: sum.splits)

lemma load_preference_high:
  assumes "total_active w = Some active" "active > high_load_threshold cfg"
    and "get_local_providers reg (now_local w) = Inr local"
  shows "load_preference cfg reg w cs =
           (if filter (\<lambda>p. p \<in> set local) cs = [] then cs else filter (\<lambda>p. p \<in> set local) cs)"
  using assms by (auto simp: load_preference_def is_high_load_def Let_def)

text \<open>
  C7: let the load check succeed with \<open>total_active\<close> above the threshold, and let
  \<open>both\<close> be the candidates (the untried available providers, or all available ones)
  that are among the available local providers. If \<open>both\<close> is not empty it replaces
  the candidates, so whatever provider \<open>select\<close> returns is in \<open>both\<close> and has type
  \<open>local\<close>, whatever the scores are; and \<open>select\<close> does return one when every priority
  \<open>n\<close> in \<open>both\<close> can be inverted (\<open>n\<close> is not 0 and \<open>|n| < 2^1024 - 2^970\<close>). If \<open>both\<close> is
  empty the candidates stay as they were.
\<close>

theorem high_load_prefers_local:
  assumes load: "total_active w = Some active" "active > high_load_threshold cfg"
    and av: "get_available_providers reg (now_available w) = Inr avail"
    and loc: "get_local_providers reg (now_local w) = Inr local"
    and both: "both = filter (\<lambda>p. p \<in> set local) (untried_or_all ctx avail)"
  shows "(both \<noteq> [] \<longrightarrow>
            load_preference cfg reg w (untried_or_all ctx avail) = both \<and>
            (\<forall>c p. select cfg reg cached w ctx = (c, Inr (Some p)) \<longrightarrow>
               p \<in> set both \<and> d_type p = ''local'') \<and>
            ((\<forall>q\<in>set both. d_priority q \<noteq> 0 \<and> \<bar>d_priority q\<bar> < 2 ^ 1024 - 2 ^ 970) \<longrightarrow>
               (\<exists>c p. select cfg reg cached w ctx = (c, Inr (Some p))))) \<and>
         (both = [] \<longrightarrow>
            load_preference cfg reg w (untried_or_all ctx avail) = untried_or_all ctx avail)"
proof (intro conjI impI allI)
  assume ne: "both \<noteq> []"
  show lp: "load_preference cfg reg w (untried_or_all ctx avail) = both"
    using ne both by (simp add: load_preference_high [OF load loc])
  {
    fix c p
    assume sel: "select cfg reg cached w ctx = (c, Inr (Some p))"
    have mem: "p \<in> set both" using select_Some_member [OF av sel] lp by simp
    then have "p \<in> set local" using both by simp
    then have "d_type p = ''local''" by (rule local_type [OF loc])
    with mem show "p \<in> set both" and "d_type p = ''local''" by simp_all
  }
  {
    assume prio: "\<forall>q\<in>set both. d_priority q \<noteq> 0 \<and> \<bar>d_priority q\<bar> < 2 ^ 1024 - 2 ^ 970"
    have inv: "\<forall>q\<in>set both. \<exists>v. one_over (d_priority q) = Inr v"
      using prio one_over_defined by blast
    have "avail \<noteq> []" using ne both set_untried_or_all [of ctx avail] by (cases avail) auto
    then show "\<exists>c p. select cfg reg cached w ctx = (c, Inr (Some p))"
      using select_total [OF av, of cfg ctx cached] inv lp by auto
  }
next
  assume "both = []"
  then show "load_preference cfg reg w (untried_or_all ctx avail) = untried_or_all ctx avail"
    using both by (simp add: load_preference_high [OF load loc])
qed

text \<open>
  The theorem at three inputs: with A tried, B is returned and is untried; with A and B
  both tried, the answer is that for an empty tried list; a registry without providers
  gives \<open>None\<close>.
\<close>

theorem select_exclusion_witness:
  "get_available_providers registry_AB (now_available quiet_world) = Inr [provider_A, provider_B] \<and>
   select default_config registry_AB Map.empty quiet_world
     ((new_context 3)\<lparr>providers_tried := [''A'']\<rparr>) = (Map.empty, Inr (Some provider_B)) \<and>
   d_name provider_B \<notin> set [''A''] \<and>
   select default_config registry_AB Map.empty quiet_world
     ((new_context 3)\<lparr>providers_tried := [''A'', ''B'']\<rparr>) =
   select default_config registry_AB Map.empty quiet_world
     ((new_context 3)\<lparr>providers_tried := []\<rparr>) \<and>
   get_available_providers registry_empty (now_available quiet_world) = Inr [] \<and>
   snd (select default_config registry_empty Map.empty quiet_world (new_context 3)) = Inr None"
proof -
  let ?one = "(new_context 3)\<lparr>providers_tried := [''A'']\<rparr>"
  let ?two = "(new_context 3)\<lparr>providers_tried := [''A'', ''B'']\<rparr>"
  have av: "get_available_providers registry_AB (now_available quiet_world)
              = Inr [provider_A, provider_B]"
    by (simp add: selector_defs example_defs)
  have none: "get_available_providers registry_empty (now_available quiet_world) = Inr []"
    by (simp add: selector_defs example_defs)
  have "snd (select default_config registry_AB Map.empty quiet_world ?one)
          = Inr (Some provider_B)"
    by code_simp
  then have sel: "select default_config registry_AB Map.empty quiet_world ?one
               = (Map.empty, Inr (Some provider_B))"
    by (rule select_pair) (rule refresh_quiet)
  have untried: "\<exists>q\<in>set [provider_A, provider_B]. d_name q \<notin> set (providers_tried ?one)"
    by (simp add: example_defs)
  have tried: "\<forall>q\<in>set [provider_A, provider_B]. d_name q \<in> set (providers_tried ?two)"
    by (simp add: example_defs)
  have fresh: "d_name provider_B \<notin> set (providers_tried ?one)"
    using select_exclusion [OF av, of ?one default_config Map.empty] untried sel by blast
  have fallback: "select default_config registry_AB Map.empty quiet_world ?two =
      select default_config registry_AB Map.empty quiet_world (?two\<lparr>providers_tried := []\<rparr>)"
    using select_exclusion [OF av, of ?two default_config Map.empty] tried by blast
  have empty_sel: "\<exists>c. select default_config registry_empty Map.empty quiet_world (new_context 3)
                   = (c, Inr None)"
    using select_exclusion [OF none, of "new_context 3" default_config Map.empty] by blast
  have empty_snd: "snd (select default_config registry_empty Map.empty quiet_world (new_context 3))
                    = Inr None"
    using empty_sel by auto
  have same: "?two\<lparr>providers_tried := []\<rparr> = (new_context 3)\<lparr>providers_tried := []\<rparr>"
    by simp
  have fresh': "d_name provider_B \<notin> set [''A'']"
    using fresh by (simp add: new_context_def)
  show ?thesis
    by (intro conjI av sel fresh' fallback [unfolded same] none empty_snd)
qed

text \<open>
  Scenario 5 of the specification: under a load of 100 with threshold 50, the local
  provider L (score 0.25) is returned although A scores 0.5. With only A and B
  available, neither of them local, the candidates stay as they were.
\<close>

theorem high_load_prefers_local_witness:
  "total_active busy_world = Some 100 \<and> 100 > high_load_threshold default_config \<and>
   get_available_providers registry_AL (now_available busy_world) = Inr [provider_A, provider_L] \<and>
   get_local_providers registry_AL (now_local busy_world) = Inr [provider_L] \<and>
   score_loop Map.empty [provider_A, provider_L] =
     Inr [(provider_A, Finite (1 / 2)), (provider_L, Finite (1 / 4))] \<and>
   select default_config registry_AL Map.empty busy_world (new_context 3)
     = (Map.empty, Inr (Some provider_L)) \<and>
   d_type provider_L = ''local'' \<and>
   get_local_providers registry_AB (now_local busy_world) = Inr [] \<and>
   load_preference default_config registry_AB busy_world [provider_A, provider_B]
     = [provider_A, provider_B]"
proof -
  have load: "total_active busy_world = Some 100" "100 > high_load_threshold default_config"
    by (simp_all add: example_defs)
  have av: "get_available_providers registry_AL (now_available busy_world)
              = Inr [provider_A, provider_L]"
    by (simp add: selector_defs example_defs)
  have loc: "get_local_providers registry_AL (now_local busy_world) = Inr [provider_L]"
    by (simp add: selector_defs example_defs)
  have av2: "get_available_providers registry_AB (now_available busy_world)
              = Inr [provider_A, provider_B]"
    by (simp add: selector_defs example_defs)
  have loc2: "get_local_providers registry_AB (now_local busy_world) = Inr []"
    by (simp add: selector_defs example_defs)
  have scores: "score_loop Map.empty [provider_A, provider_L]
                  = Inr [(provider_A, Finite (1 / 2)), (provider_L, Finite (1 / 4))]"
    by code_simp
  have "snd (select default_config registry_AL Map.empty busy_world (new_context 3))
          = Inr (Some provider_L)"
    by code_simp
  then have sel: "select default_config registry_AL Map.empty busy_world (new_context 3)
               = (Map.empty, Inr (Some provider_L))"
    by (rule select_pair) (rule refresh_quiet)
  have both: "filter (\<lambda>p. p \<in> set [provider_L])
                (untried_or_all (new_context 3) [provider_A, provider_L]) \<noteq> []"
    by (simp add: untried_or_all_def example_defs)
  have neither: "filter (\<lambda>p. p \<in> set [])
                (untried_or_all (new_context 3) [provider_A, provider_B]) = []"
    by simp
  have cands: "untried_or_all (new_context 3) [provider_A, provider_B] = [provider_A, provider_B]"
    by (simp add: untried_or_all_def example_defs)
  have local: "d_type provider_L = ''local''"
    using high_load_prefers_local [OF load av loc refl, of "new_context 3" Map.empty] both sel
    by blast
  have kept: "load_preference default_config registry_AB busy_world [provider_A, provider_B]
                = [provider_A, provider_B]"
    using high_load_prefers_local [OF load av2 loc2 refl, of "new_context 3"] neither
    unfolding cands by blast
  show ?thesis
    by (intro conjI load av loc scores sel local loc2 kept)
qed

text \<open>
  The ranking follows the float scores: of P (priority 49, weight 49.0) and Q (priority
  50, weight 50.0), whose exact scores are equal, \<open>select\<close> returns Q.
\<close>

lemma select_by_float_score:
  "snd (select default_config registry_PQ Map.empty quiet_world (new_context 3))
     = Inr (Some provider_Q)"
  by code_simp

section \<open>Properties of the execution engine\<close>

subsection \<open>The paths through the loop body\<close>

text \<open>
  One lemma for each way through the body of the loop, giving the state it ends with.
\<close>

lemma loop_body_raise:
  assumes "select cfg (registry st) (cached_stats st) w (e_context st) = (c, Inl e)"
  shows "loop_body cfg providers has_packet w st = Raise e (st\<lparr>cached_stats := c\<rparr>)"
  using assms by (simp add: loop_body_def)

lemma loop_body_no_provider:
  assumes "select cfg (registry st) (cached_stats st) w (e_context st) = (c, Inr None)"
  shows "loop_body cfg providers has_packet w st =
           Break (st\<lparr>cached_stats := c, events := events st @ [''no_provider_available'']\<rparr>)"
  using assms by (simp add: loop_body_def emit_def)

lemma loop_body_start_run_failed:
  assumes "select cfg (registry st) (cached_stats st) w (e_context st) = (c, Inr (Some d))"
    and "d_name d \<in> set providers" "\<not> start_run_ok w"
  shows "loop_body cfg providers has_packet w st =
           Break (st\<lparr>cached_stats := c, events := events st @ [''start_run_failed'']\<rparr>)"
  using assms by (simp add: loop_body_def Let_def emit_def)

lemma loop_body_no_packet:
  assumes "select cfg (registry st) (cached_stats st) w (e_context st) = (c, Inr (Some d))"
    and "d_name d \<in> set providers" "start_run_ok w" "\<not> has_packet"
  shows "loop_body cfg providers has_packet w st =
           Break (st\<lparr>cached_stats := c,
                    events := events st @ [''executing_task'', ''no_task_packet_for_retry'']\<rparr>)"
  using assms by (simp add: loop_body_def Let_def emit_def)

lemma loop_body_success:
  assumes "select cfg (registry st) (cached_stats st) w (e_context st) = (c, Inr (Some d))"
    and "d_name d \<in> set providers" "start_run_ok w" "has_packet"
    and "execution_status (generate w (d_name d)) = ''success''"
  shows "loop_body cfg providers has_packet w st =
     Return (st\<lparr>
       registry := mark_success (registry st) (now_report w) (d_name d),
       cached_stats := c,
       events := events st @ [''executing_task''] @
                   (if complete_run_ok w then [] else [''complete_run_failed'']) @
                   [''task_succeeded''],
       invoked := invoked st @ [(d_name d, ''success'')]\<rparr>)"
  using assms by (simp add: loop_body_def Let_def emit_def report_result_def)

lemma mark_failure_plain:
  "mark_failure reg t t2 n False = (fst (mark_failure reg t t2 n False), None)"
  by (simp add: mark_failure_def Let_def split: option.splits)

lemma loop_body_failure:
  assumes "select cfg (registry st) (cached_stats st) w (e_context st) = (c, Inr (Some d))"
    and "d_name d \<in> set providers" "start_run_ok w" "has_packet"
    and "execution_status (generate w (d_name d)) = status"
    and "status \<noteq> ''success''" "status \<noteq> ''provider_failure''"
  shows "loop_body cfg providers has_packet w st =
     Continue (st\<lparr>
       e_context := (e_context st)\<lparr>attempt := attempt (e_context st) + 1,
                      providers_tried := providers_tried (e_context st) @ [d_name d]\<rparr>,
       registry :=
         fst (mark_failure (registry st) (now_report w) (now_cooldown w) (d_name d) False),
       cached_stats := c,
       events := events st @ [''executing_task''] @
                   (if complete_run_ok w then [] else [''complete_run_failed'']) @ [''task_failed''],
       invoked := invoked st @ [(d_name d, status)]\<rparr>)"
proof -
  obtain reg' where mf: "mark_failure (registry st) (now_report w) (now_cooldown w) (d_name d) False
      = (reg', None)"
    using mark_failure_plain by blast
  show ?thesis
    using assms
    by (simp add: loop_body_def Let_def emit_def tried_append_def report_result_def mf)
qed

lemma loop_body_provider_failure:
  assumes "select cfg (registry st) (cached_stats st) w (e_context st) = (c, Inr (Some d))"
    and "d_name d \<in> set providers" "start_run_ok w" "has_packet"
    and "execution_status (generate w (d_name d)) = ''provider_failure''"
    and "mark_failure (registry st) (now_report w) (now_cooldown w) (d_name d)
           (is_rate_limit (generate w (d_name d))) = (reg', None)"
  shows "loop_body cfg providers has_packet w st =
     Continue (st\<lparr>
       e_context := (e_context st)\<lparr>providers_tried := providers_tried (e_context st) @ [d_name d]\<rparr>,
       registry := reg',
       cached_stats := c,
       events := events st @ [''executing_task''] @
                   (if complete_run_ok w then [] else [''complete_run_failed'']) @
                   [''provider_failure_failover''],
       invoked := invoked st @ [(d_name d, ''provider_failure'')]\<rparr>)"
  using assms by (simp add: loop_body_def Let_def emit_def tried_append_def report_result_def)

lemma loop_body_report_raised:
  assumes "select cfg (registry st) (cached_stats st) w (e_context st) = (c, Inr (Some d))"
    and "d_name d \<in> set providers" "start_run_ok w" "has_packet"
    and "execution_status (generate w (d_name d)) = ''provider_failure''"
    and "mark_failure (registry st) (now_report w) (now_cooldown w) (d_name d)
           (is_rate_limit (generate w (d_name d))) = (reg', Some e)"
  shows "loop_body cfg providers has_packet w st =
     Raise e (st\<lparr>
       registry := reg',
       cached_stats := c,
       events := events st @ [''executing_task''] @
                   (if complete_run_ok w then [] else [''complete_run_failed'']),
       invoked := invoked st @ [(d_name d, ''provider_failure'')]\<rparr>)"
  using assms by (simp add: loop_body_def Let_def emit_def tried_append_def report_result_def)

lemma loop_body_not_initialized:
  assumes "select cfg (registry st) (cached_stats st) w (e_context st) = (c, Inr (Some d))"
    and "d_name d \<notin> set providers"
  shows "loop_body cfg providers has_packet w st =
     Continue (st\<lparr>
       e_context := (e_context st)\<lparr>providers_tried := providers_tried (e_context st) @ [d_name d]\<rparr>,
       cached_stats := c,
       events := events st @ [''provider_not_initialized'']\<rparr>)"
  using assms by (simp add: loop_body_def Let_def emit_def tried_append_def)

subsection \<open>Attempt accounting\<close>

lemma loop_body_accounting:
  assumes "flow_state (loop_body cfg providers has_packet w st) = st'"
  shows "(invoked st' = invoked st \<and> attempt (e_context st') = attempt (e_context st)) \<or>
         (\<exists>name status. invoked st' = invoked st @ [(name, status)] \<and>
            attempt (e_context st') =
              attempt (e_context st) +
                (if status = ''success'' \<or> status = ''provider_failure'' then 0 else 1))"
proof -
  let ?body = "loop_body cfg providers has_packet w st"
  obtain c r where sel: "select cfg (registry st) (cached_stats st) w (e_context st) = (c, r)"
    by (cases "select cfg (registry st) (cached_stats st) w (e_context st)")
  have same: "invoked st' = invoked st \<and> attempt (e_context st') = attempt (e_context st)"
    if "flow_state ?body = st\<lparr>cached_stats := c, events := ev\<rparr>" for ev
    using that assms by (cases st') simp
  have same': "invoked st' = invoked st \<and> attempt (e_context st') = attempt (e_context st)"
    if "flow_state ?body = st\<lparr>cached_stats := c\<rparr>"
    using that assms by (cases st') simp
  show ?thesis
  proof (cases r)
    case (Inl e)
    have "flow_state ?body = st\<lparr>cached_stats := c\<rparr>"
      by (simp add: loop_body_raise [OF sel [unfolded Inl]])
    from same' [OF this] show ?thesis by (rule disjI1)
  next
    case (Inr chosen)
    show ?thesis
    proof (cases chosen)
      case None
      have "flow_state ?body = st\<lparr>cached_stats := c, events := events st @ [''no_provider_available'']\<rparr>"
        by (simp add: loop_body_no_provider [OF sel [unfolded Inr None]])
      from same [OF this] show ?thesis by (rule disjI1)
    next
      case (Some d)
      note sel' = sel [unfolded Inr Some]
      let ?status = "execution_status (generate w (d_name d))"
      consider (uninit) "d_name d \<notin> set providers"
        | (nostart) "d_name d \<in> set providers" "\<not> start_run_ok w"
        | (nopacket) "d_name d \<in> set providers" "start_run_ok w" "\<not> has_packet"
        | (success) "d_name d \<in> set providers" "start_run_ok w" "has_packet"
            "?status = ''success''"
        | (pfail) "d_name d \<in> set providers" "start_run_ok w" "has_packet"
            "?status = ''provider_failure''"
        | (fail) "d_name d \<in> set providers" "start_run_ok w" "has_packet"
            "?status \<noteq> ''success''" "?status \<noteq> ''provider_failure''"
        by blast
      then show ?thesis
      proof cases
        case uninit
        have "invoked (flow_state ?body) = invoked st"
          "attempt (e_context (flow_state ?body)) = attempt (e_context st)"
          by (simp_all add: loop_body_not_initialized [OF sel' uninit])
        then show ?thesis unfolding assms by simp
      next
        case nostart
        have "flow_state ?body = st\<lparr>cached_stats := c, events := events st @ [''start_run_failed'']\<rparr>"
          by (simp add: loop_body_start_run_failed [OF sel' nostart])
        from same [OF this] show ?thesis by (rule disjI1)
      next
        case nopacket
        have "flow_state ?body = st\<lparr>cached_stats := c,
                 events := events st @ [''executing_task'', ''no_task_packet_for_retry'']\<rparr>"
          by (simp add: loop_body_no_packet [OF sel' nopacket])
        from same [OF this] show ?thesis by (rule disjI1)
      next
        case success
        have "invoked (flow_state ?body) = invoked st @ [(d_name d, ''success'')]"
          "attempt (e_context (flow_state ?body)) = attempt (e_context st)"
          by (simp_all add: loop_body_success [OF sel' success])
        then have "invoked st' = invoked st @ [(d_name d, ''success'')] \<and>
            attempt (e_context st') = attempt (e_context st) +
              (if ''success'' = ''success'' \<or> ''success'' = ''provider_failure'' then 0 else 1)"
          unfolding assms by simp
        then show ?thesis by blast
      next
        case pfail
        obtain reg' raised where mf:
          "mark_failure (registry st) (now_report w) (now_cooldown w) (d_name d)
             (is_rate_limit (generate w (d_name d))) = (reg', raised)"
          by (cases "mark_failure (registry st) (now_report w) (now_cooldown w) (d_name d)
             (is_rate_limit (generate w (d_name d)))")
        have "invoked (flow_state ?body) = invoked st @ [(d_name d, ''provider_failure'')] \<and>
          attempt (e_context (flow_state ?body)) = attempt (e_context st)"
        proof (cases raised)
          case None
          note step = loop_body_provider_failure [OF sel' pfail mf [unfolded None]]
          show ?thesis by (simp add: step)
        next
          case (Some e)
          note step = loop_body_report_raised [OF sel' pfail mf [unfolded Some]]
          show ?thesis by (simp add: step)
        qed
        then have "invoked st' = invoked st @ [(d_name d, ''provider_failure'')] \<and>
            attempt (e_context st') = attempt (e_context st) +
              (if ''provider_failure'' = ''success'' \<or> ''provider_failure'' = ''provider_failure''
               then 0 else 1)"
          unfolding assms by simp
        then show ?thesis by blast
      next
        case fail
        have "invoked (flow_state ?body) = invoked st @ [(d_name d, ?status)]"
          "attempt (e_context (flow_state ?body)) = attempt (e_context st) + 1"
          by (simp_all add: loop_body_failure [OF sel' fail(1-3) refl fail(4,5)])
        then have "invoked st' = invoked st @ [(d_name d, ?status)] \<and>
            attempt (e_context st') = attempt (e_context st) +
              (if ?status = ''success'' \<or> ?status = ''provider_failure'' then 0 else 1)"
          unfolding assms using fail(4,5) by simp
        then show ?thesis by blast
      qed
    qed
  qed
qed

lemma count_snoc:
  "count_status s (calls @ [(n, t)]) = count_status s calls + (if t = s then 1 else 0)"
  "count_undocumented (calls @ [(n, t)]) =
     count_undocumented calls + (if t \<in> {''success'', ''failure'', ''provider_failure''} then 0 else 1)"
  by (simp_all add: count_status_def count_undocumented_def)

lemma loop_body_counts:
  assumes "flow_state (loop_body cfg providers has_packet w st) = st'"
  shows "\<exists>new. invoked st' = invoked st @ new \<and>
           attempt (e_context st') =
             attempt (e_context st) + int (count_status ''failure'' new)
               + int (count_undocumented new)"
proof -
  from loop_body_accounting [OF assms] show ?thesis
  proof (elim disjE exE conjE)
    assume "invoked st' = invoked st" "attempt (e_context st') = attempt (e_context st)"
    then show ?thesis
      by (intro exI [of _ "[]"]) (simp add: count_status_def count_undocumented_def)
  next
    fix name status
    assume "invoked st' = invoked st @ [(name, status)]"
      "attempt (e_context st') = attempt (e_context st) +
         (if status = ''success'' \<or> status = ''provider_failure'' then 0 else 1)"
    then show ?thesis
      by (intro exI [of _ "[(name, status)]"]) (auto simp: count_status_def count_undocumented_def)
  qed
qed

lemma execute_task_counts:
  assumes "execute_task fuel cfg providers has_packet env k st = (out, st')"
  shows "\<exists>new. invoked st' = invoked st @ new \<and>
           attempt (e_context st') =
             attempt (e_context st) + int (count_status ''failure'' new)
               + int (count_undocumented new)"
  using assms
proof (induction fuel arbitrary: k st)
  case 0
  then show ?case
    by (intro exI [of _ "[]"])
       (auto simp: emit_def count_status_def count_undocumented_def split: if_splits)
next
  case (Suc fuel)
  show ?case
  proof (cases "attempt (e_context st) < max_attempts (e_context st)")
    case False
    with Suc.prems show ?thesis
      by (intro exI [of _ "[]"]) (auto simp: emit_def count_status_def count_undocumented_def)
  next
    case True
    let ?fl = "loop_body cfg providers has_packet (env k) st"
    obtain mid where mid: "flow_state ?fl = mid" by simp
    from loop_body_counts [OF mid] obtain new1 where
      n1: "invoked mid = invoked st @ new1"
      "attempt (e_context mid) = attempt (e_context st) + int (count_status ''failure'' new1)
          + int (count_undocumented new1)" by blast
    have "\<exists>new2. invoked st' = invoked mid @ new2 \<and>
           attempt (e_context st') =
             attempt (e_context mid) + int (count_status ''failure'' new2)
               + int (count_undocumented new2)"
    proof (cases ?fl)
      case (Continue x)
      then have "execute_task fuel cfg providers has_packet env (Suc k) mid = (out, st')"
        using Suc.prems True mid by simp
      from Suc.IH [OF this] show ?thesis .
    next
      case (Break x)
      then show ?thesis using Suc.prems True mid
        by (intro exI [of _ "[]"]) (auto simp: emit_def count_status_def count_undocumented_def)
    next
      case (Return x)
      then show ?thesis using Suc.prems True mid
        by (intro exI [of _ "[]"]) (auto simp: emit_def count_status_def count_undocumented_def)
    next
      case (Raise e x)
      then show ?thesis using Suc.prems True mid
        by (intro exI [of _ "[]"]) (auto simp: emit_def count_status_def count_undocumented_def)
    qed
    then obtain new2 where n2: "invoked st' = invoked mid @ new2"
      "attempt (e_context st') = attempt (e_context mid) + int (count_status ''failure'' new2)
          + int (count_undocumented new2)" by blast
    show ?thesis
      using n1 n2 by (intro exI [of _ "new1 @ new2"]) (simp add: count_status_def count_undocumented_def)
  qed
qed

text \<open>
  C1: in one pass through the loop body the attempt counter either stays as it is,
  with no call of \<open>generate\<close>, or one call is made and the counter goes up by one
  unless the returned status is \<open>success\<close> or \<open>provider_failure\<close>, when it stays. Hence
  over any number of iterations of one \<open>_execute_task\<close> call, whether or not the call
  has ended by then, the counter has grown by the number of calls that returned
  \<open>failure\<close> (plus those with a status outside the three documented ones, which the
  code treats like \<open>failure\<close>). And there is a run, A answering \<open>provider_failure\<close> and
  then B \<open>failure\<close> with \<open>max_attempts = 1\<close>, that makes more calls than \<open>max_attempts\<close>.
\<close>

theorem attempt_accounting:
  "(flow_state (loop_body cfg providers has_packet w st) = mid \<longrightarrow>
      (invoked mid = invoked st \<and> attempt (e_context mid) = attempt (e_context st)) \<or>
      (\<exists>name status. invoked mid = invoked st @ [(name, status)] \<and>
         attempt (e_context mid) =
           attempt (e_context st) +
             (if status = ''success'' \<or> status = ''provider_failure'' then 0 else 1))) \<and>
   (execute_task fuel cfg providers has_packet env k st = (out, st') \<longrightarrow>
      (\<exists>new. invoked st' = invoked st @ new \<and>
         attempt (e_context st') =
           attempt (e_context st) + int (count_status ''failure'' new)
             + int (count_undocumented new))) \<and>
   (fst (execute_task 2 default_config (init_providers registry_AB) True failover_env 0
          (start registry_AB 1)) = Exhausted \<and>
    max_attempts (e_context (start registry_AB 1)) <
      int (length (invoked (snd (execute_task 2 default_config (init_providers registry_AB) True
          failover_env 0 (start registry_AB 1))))))"
proof (intro conjI impI)
  assume "flow_state (loop_body cfg providers has_packet w st) = mid"
  then show "(invoked mid = invoked st \<and> attempt (e_context mid) = attempt (e_context st)) \<or>
      (\<exists>name status. invoked mid = invoked st @ [(name, status)] \<and>
         attempt (e_context mid) =
           attempt (e_context st) +
             (if status = ''success'' \<or> status = ''provider_failure'' then 0 else 1))"
    by (rule loop_body_accounting)
next
  assume "execute_task fuel cfg providers has_packet env k st = (out, st')"
  then show "\<exists>new. invoked st' = invoked st @ new \<and>
         attempt (e_context st') =
           attempt (e_context st) + int (count_status ''failure'' new)
             + int (count_undocumented new)"
    by (rule execute_task_counts)
next
  show "fst (execute_task 2 default_config (init_providers registry_AB) True failover_env 0
          (start registry_AB 1)) = Exhausted"
    by code_simp
  show "max_attempts (e_context (start registry_AB 1)) <
      int (length (invoked (snd (execute_task 2 default_config (init_providers registry_AB) True
          failover_env 0 (start registry_AB 1)))))"
    by code_simp
qed

text \<open>
  The theorem at the run just named: of its two calls one returned \<open>failure\<close>, so the
  counter ends at 1.
\<close>

theorem attempt_accounting_witness:
  "invoked (snd (execute_task 2 default_config (init_providers registry_AB) True failover_env 0
      (start registry_AB 1))) = [(''A'', ''provider_failure''), (''B'', ''failure'')] \<and>
   attempt (e_context (snd (execute_task 2 default_config (init_providers registry_AB) True
      failover_env 0 (start registry_AB 1)))) = 1"
proof -
  let ?run = "execute_task 2 default_config (init_providers registry_AB) True failover_env 0
      (start registry_AB 1)"
  have calls: "invoked (snd ?run) = [(''A'', ''provider_failure''), (''B'', ''failure'')]"
    by code_simp
  have run: "?run = (fst ?run, snd ?run)"
    by simp
  from attempt_accounting [THEN conjunct2, THEN conjunct1, rule_format, OF run]
  obtain new where new: "invoked (snd ?run) = invoked (start registry_AB 1) @ new"
    "attempt (e_context (snd ?run)) =
       attempt (e_context (start registry_AB 1)) + int (count_status ''failure'' new)
         + int (count_undocumented new)"
    by blast
  have "new = [(''A'', ''provider_failure''), (''B'', ''failure'')]"
    using new(1) calls by (simp add: start_def)
  then have "attempt (e_context (snd ?run)) = 1"
    using new(2)
    by (simp add: start_def new_context_def count_status_def count_undocumented_def)
  with calls show ?thesis by simp
qed

subsection \<open>Termination\<close>

text \<open>
  If some property of the engine state is kept by every pass through the body, makes
  every pass end in \<open>continue\<close> and keeps the loop condition true, the call has not ended
  after any number of iterations.
\<close>

lemma execute_task_running:
  assumes step: "\<And>k st. I st \<Longrightarrow>
      \<exists>st'. loop_body cfg providers has_packet (env k) st = Continue st' \<and> I st'"
    and unfinished: "\<And>st. I st \<Longrightarrow> attempt (e_context st) < max_attempts (e_context st)"
    and start: "I st"
  shows "fst (execute_task fuel cfg providers has_packet env k st) = Running"
  using start
proof (induction fuel arbitrary: k st)
  case 0
  then show ?case using unfinished by simp
next
  case (Suc fuel)
  from step [OF Suc.prems, of k] obtain st' where
    st': "loop_body cfg providers has_packet (env k) st = Continue st'" "I st'" by blast
  show ?case
    using unfinished [OF Suc.prems] st' Suc.IH [OF st'(2)] by simp
qed

lemma load_preference_single: "load_preference cfg reg w [p] = [p]"
  by (simp add: load_preference_def Let_def split: sum.splits)

lemma select_X:
  "select cfg registry_X cached w ctx = (refresh_stats cached w, Inr (Some provider_X))"
proof -
  have av: "get_available_providers registry_X t = Inr [provider_X]" for t
    by (simp add: get_available_providers_def get_enabled_providers_def registry_X_def
        provider_X_def initial_state_def)
  have cands: "untried_or_all ctx [provider_X] = [provider_X]"
    by (simp add: untried_or_all_def Let_def)
  have pref: "load_preference cfg registry_X w [provider_X] = [provider_X]"
    by (rule load_preference_single)
  have "one_over (d_priority provider_X) = Inr (Finite 1)"
    unfolding provider_X_def by code_simp
  then show ?thesis
    by (simp add: select_def av cands pref score_providers_def Let_def first_ranked_single)
qed

lemma never_returns_X:
  "fst (execute_task fuel cfg [] True env 0 (start registry_X 3)) = Running"
proof (rule execute_task_running
    [where I = "\<lambda>st. registry st = registry_X \<and> attempt (e_context st) < max_attempts (e_context st)"])
  fix k and st :: engine
  assume inv: "registry st = registry_X \<and> attempt (e_context st) < max_attempts (e_context st)"
  have sel: "select cfg (registry st) (cached_stats st) (env k) (e_context st)
               = (refresh_stats (cached_stats st) (env k), Inr (Some provider_X))"
    using inv by (simp add: select_X)
  have "d_name provider_X \<notin> set ([] :: string list)" by simp
  from loop_body_not_initialized [OF sel this]
  show "\<exists>st'. loop_body cfg [] True (env k) st = Continue st' \<and>
          (registry st' = registry_X \<and> attempt (e_context st') < max_attempts (e_context st'))"
    using inv by simp
next
  show "registry (start registry_X 3) = registry_X \<and>
        attempt (e_context (start registry_X 3)) < max_attempts (e_context (start registry_X 3))"
    by (simp add: start_def new_context_def)
qed simp

lemma available_loop_cong:
  assumes "\<And>n. rel_option (\<lambda>s s'. available s' = available s \<and>
                     rate_limited_until s' = rate_limited_until s) (sts n) (sts' n)"
  shows "available_loop sts' now ds = available_loop sts now ds"
proof (induction ds)
  case Nil
  show ?case by simp
next
  case (Cons d ds)
  show ?case
    using assms [of "d_name d"] Cons.IH
    by (cases "sts (d_name d)"; cases "sts' (d_name d)") (auto split: sum.splits)
qed

lemma mark_failure_frame:
  "definitions (fst (mark_failure reg t t2 n False)) = definitions reg"
  "config (fst (mark_failure reg t t2 n False)) = config reg"
  by (simp_all add: mark_failure_def Let_def split: option.splits)

lemma mark_failure_states:
  "rel_option (\<lambda>s s'. available s' = available s \<and> rate_limited_until s' = rate_limited_until s)
     (states reg m) (states (fst (mark_failure reg t t2 n False)) m)"
  by (cases "states reg m"; cases "states reg n")
     (auto simp: mark_failure_def Let_def)

lemma get_available_mark_failure:
  "get_available_providers (fst (mark_failure reg t t2 n False)) now
     = get_available_providers reg now"
  unfolding get_available_providers_def get_enabled_providers_def mark_failure_frame
  by (rule available_loop_cong) (rule mark_failure_states)

lemma select_single:
  assumes av: "get_available_providers reg (now_available w) = Inr [p]"
    and prio: "one_over (d_priority p) = Inr v"
  shows "select cfg reg cached w ctx = (refresh_stats cached w, Inr (Some p))"
proof -
  have cands: "untried_or_all ctx [p] = [p]"
    by (simp add: untried_or_all_def Let_def)
  show ?thesis
    using prio
    by (simp add: select_def av cands load_preference_single score_providers_def Let_def
        first_ranked_single)
qed

lemma never_returns_L:
  "fst (execute_task fuel cfg [''L''] True not_installed_env 0 (start registry_L 3)) = Running"
proof (rule execute_task_running
    [where I = "\<lambda>st. (\<forall>t. get_available_providers (registry st) t = Inr [provider_L]) \<and>
                    attempt (e_context st) < max_attempts (e_context st)"])
  fix k and st :: engine
  assume inv: "(\<forall>t. get_available_providers (registry st) t = Inr [provider_L]) \<and>
               attempt (e_context st) < max_attempts (e_context st)"
  let ?w = "not_installed_env k"
  have "one_over (d_priority provider_L) = Inr (Finite (1 / 2))"
    unfolding provider_L_def by code_simp
  then have sel: "select cfg (registry st) (cached_stats st) ?w (e_context st)
               = (refresh_stats (cached_stats st) ?w, Inr (Some provider_L))"
    using inv by (simp add: select_single)
  have facts: "d_name provider_L \<in> set [''L'']" "start_run_ok ?w" "True"
    "execution_status (generate ?w (d_name provider_L)) = ''provider_failure''"
    "\<not> is_rate_limit (generate ?w (d_name provider_L))"
    by (simp_all add: provider_L_def not_installed_env_def not_installed_world_def
        quiet_world_def not_installed_bundle_def)
  have mf: "mark_failure (registry st) (now_report ?w) (now_cooldown ?w) (d_name provider_L)
              (is_rate_limit (generate ?w (d_name provider_L)))
            = (fst (mark_failure (registry st) (now_report ?w) (now_cooldown ?w)
                      (d_name provider_L) False), None)"
    using facts(5) mark_failure_plain by simp
  from loop_body_provider_failure [OF sel facts(1-4) mf]
  show "\<exists>st'. loop_body cfg [''L''] True ?w st = Continue st' \<and>
          ((\<forall>t. get_available_providers (registry st') t = Inr [provider_L]) \<and>
           attempt (e_context st') < max_attempts (e_context st'))"
    using inv by (simp add: get_available_mark_failure)
next
  have "get_available_providers registry_L t = Inr [provider_L]" for t
    by (simp add: get_available_providers_def get_enabled_providers_def registry_L_def
        provider_L_def initial_state_def)
  then show "(\<forall>t. get_available_providers (registry (start registry_L 3)) t = Inr [provider_L]) \<and>
        attempt (e_context (start registry_L 3)) < max_attempts (e_context (start registry_L 3))"
    by (simp add: start_def new_context_def)
qed simp

lemma inits: "init_providers registry_X = []" "init_providers registry_L = [''L'']"
  "init_providers registry_AB = [''A'', ''B'']"
  by (simp_all add: init_providers_def get_enabled_providers_def provider_classes_def
    registry_X_def registry_L_def registry_AB_def provider_X_def provider_L_def provider_A_def provider_B_def)

text \<open>
  C3, as the code behaves: two calls of \<open>_execute_task\<close> that never end. In the first
  the only provider has an adapter identifier that \<open>_init_providers\<close> does not know; it
  is selected in every iteration, whatever the QA service and the clock answer, and
  skipped without any progress. In the second the only provider is an Ollama provider
  on a host without the \<open>ollama\<close> package, which answers \<open>provider_failure\<close> without a
  rate limit in every iteration. In both the attempt counter stays 0, and no number of
  iterations is enough.
\<close>

theorem execute_task_never_returns:
  "(\<forall>env fuel. fst (execute_task fuel default_config (init_providers registry_X) True env 0
                     (start registry_X 3)) = Running) \<and>
   (\<forall>fuel. fst (execute_task fuel default_config (init_providers registry_L) True
                 not_installed_env 0 (start registry_L 3)) = Running)"
  by (simp add: inits never_returns_X never_returns_L)

subsection \<open>The retry scenario\<close>







section \<open>Properties of the task compiler\<close>

text \<open>
  The recursive equations of \<open>compile_loop\<close> and \<open>str_nat\<close> are unfolded by hand where
  they are needed.
\<close>

declare compile_loop.simps [simp del]

declare str_nat.simps [simp del]

subsection \<open>Parsing\<close>

lemma split_once_two: "sep \<in> set s \<Longrightarrow> length (split_once sep s) = 2"
  by (simp add: split_once_def)

lemma parse_line_total: "\<exists>line. parse_line u line0 = Inr line"
proof -
  define line1 where "line1 = strip u line0"
  define line2 where "line2 = (if line1 \<noteq> [] \<and> hd line1 \<in> set bullet_markers
                               then strip u (drop 1 line1) else line1)"
  have eq: "parse_line u line0 =
      (if line2 \<noteq> [] \<and> isdigit u (hd line2) \<and> dot \<in> set (take 3 line2)
       then (case index (split_once dot line2) 1 of
               Inl e \<Rightarrow> Inl e
             | Inr rest \<Rightarrow> Inr (strip u rest))
       else Inr line2)"
    unfolding parse_line_def line2_def line1_def Let_def ..
  show ?thesis
  proof (cases "line2 \<noteq> [] \<and> isdigit u (hd line2) \<and> dot \<in> set (take 3 line2)")
    case True
    then have "dot \<in> set line2" by (meson in_set_takeD)
    then have "index (split_once dot line2) 1 = Inr (split_once dot line2 ! 1)"
      by (simp add: index_def split_once_two)
    then have "parse_line u line0 = Inr (strip u (split_once dot line2 ! 1))"
      unfolding eq if_P [OF True] by simp
    then show ?thesis by blast
  next
    case False
    have "parse_line u line0 = Inr line2"
      unfolding eq by (rule if_not_P [OF False])
    then show ?thesis by blast
  qed
qed

lemma parse_lines_total: "\<exists>criteria. parse_lines u lines = Inr criteria"
proof (induction lines)
  case Nil
  show ?case by simp
next
  case (Cons line0 lines)
  obtain line where "parse_line u line0 = Inr line"
    using parse_line_total by blast
  with Cons show ?case by auto
qed

lemma parse_total: "\<exists>criteria. parse_acceptance_criteria u criteria_text = Inr criteria"
  by (simp add: parse_acceptance_criteria_def parse_lines_total)

text \<open>
  C2 as stated fails: for a story whose acceptance criteria are empty, or hold only
  blank lines and bullet markers, the parsed list is empty and \<open>compile\<close> does not return
  an empty list.
\<close>

theorem empty_criteria_counterexample:
  "parse_acceptance_criteria ascii_tables (acceptance_criteria (story_with [])) = Inr [] \<and>
   compile default_config ascii_tables example_fresh (story_with []) \<noteq> Inr [] \<and>
   parse_acceptance_criteria ascii_tables (acceptance_criteria (story_with bullets_only)) = Inr [] \<and>
   compile default_config ascii_tables example_fresh (story_with bullets_only) \<noteq> Inr []"
  by code_simp

text \<open>
  C2, amended: parsing returns a list for every input string and never raises; and
  for every story whose acceptance criteria parse to no criterion, \<open>compile\<close> returns
  exactly one packet, with the story's title and an empty list of success criteria.
\<close>

theorem compile_without_criteria:
  "(\<exists>criteria. parse_acceptance_criteria u criteria_text = Inr criteria) \<and>
   (parse_acceptance_criteria u (acceptance_criteria story) = Inr [] \<longrightarrow>
      (\<exists>packet. compile cfg u fresh story = Inr [packet] \<and>
         success_criteria (goal packet) = [] \<and> title (goal packet) = st_title story))"
  by (simp add: parse_total compile_def create_task_packet_def split: prod.splits)

text \<open>The theorem at the story whose criteria hold bullet markers and blank lines only.\<close>

theorem compile_without_criteria_witness:
  "parse_acceptance_criteria ascii_tables (acceptance_criteria (story_with bullets_only)) = Inr [] \<and>
   (\<exists>packet. compile default_config ascii_tables example_fresh (story_with bullets_only)
       = Inr [packet] \<and>
      success_criteria (goal packet) = [] \<and> title (goal packet) = ustr ''T'')"
proof -
  have parsed: "parse_acceptance_criteria ascii_tables
                  (acceptance_criteria (story_with bullets_only)) = Inr []"
    by code_simp
  have t: "st_title (story_with bullets_only) = ustr ''T''"
    by (simp add: story_with_def)
  from compile_without_criteria [THEN conjunct2, rule_format, OF parsed,
      of default_config example_fresh]
  have "\<exists>packet. compile default_config ascii_tables example_fresh (story_with bullets_only)
       = Inr [packet] \<and>
      success_criteria (goal packet) = [] \<and> title (goal packet) = ustr ''T''"
    unfolding t .
  with parsed show ?thesis by (intro conjI)
qed

subsection \<open>Decomposition\<close>

lemma concat_chunks: "concat (chunks_of_3 xs) = xs"
proof (induction xs rule: chunks_of_3.induct)
  case 1
  show ?case by simp
next
  case (2 x xs)
  have "concat (chunks_of_3 (x # xs)) = take 3 (x # xs) @ concat (chunks_of_3 (drop 3 (x # xs)))"
    by (simp only: chunks_of_3.simps concat.simps)
  also have "\<dots> = take 3 (x # xs) @ drop 3 (x # xs)"
    by (simp only: 2)
  finally show ?case by (simp only: append_take_drop_id)
qed

lemma length_chunks: "length (chunks_of_3 xs) = (length xs + 2) div 3"
proof (induction xs rule: chunks_of_3.induct)
  case 1
  show ?case by simp
next
  case (2 x xs)
  have ar: "Suc ((Suc n - 3 + 2) div 3) = (Suc n + 2) div 3" for n :: nat
    by presburger
  have "length (chunks_of_3 (x # xs)) = Suc (length (chunks_of_3 (drop 3 (x # xs))))"
    by (simp only: chunks_of_3.simps list.size)
  also have "\<dots> = Suc ((length (drop 3 (x # xs)) + 2) div 3)"
    by (simp only: 2)
  also have "\<dots> = (length (x # xs) + 2) div 3"
    by (simp only: length_drop length_Cons ar)
  finally show ?case .
qed

lemma nth_chunks:
  "i < length (chunks_of_3 xs) \<Longrightarrow> chunks_of_3 xs ! i = take 3 (drop (3 * i) xs)"
proof (induction xs arbitrary: i rule: chunks_of_3.induct)
  case 1
  then show ?case by simp
next
  case (2 x xs)
  let ?ys = "x # xs"
  have unfold: "chunks_of_3 ?ys = take 3 ?ys # chunks_of_3 (drop 3 ?ys)"
    by (simp only: chunks_of_3.simps)
  show ?case
  proof (cases i)
    case 0
    then show ?thesis by (simp only: unfold nth_Cons_0 mult_0_right drop_0)
  next
    case (Suc j)
    then have "j < length (chunks_of_3 (drop 3 ?ys))"
      using "2.prems" by (simp only: unfold) simp
    then have "chunks_of_3 (drop 3 ?ys) ! j = take 3 (drop (3 * j) (drop 3 ?ys))"
      by (rule "2.IH")
    also have "\<dots> = take 3 (drop (3 * Suc j) ?ys)"
      by (simp only: drop_drop) (simp add: add.commute)
    finally show ?thesis
      by (simp only: unfold Suc nth_Cons_Suc)
  qed
qed

lemma chunks_as_slices:
  "chunks_of_3 xs = map (\<lambda>m. take 3 (drop (3 * m) xs)) [0..<(length xs + 2) div 3]"
  by (rule nth_equalityI) (simp_all add: length_chunks nth_chunks)

lemma compile_loop_capped:
  "max_tasks_per_story cfg \<le> int (length tasks) \<Longrightarrow>
     compile_loop cfg story criteria fresh i tasks = tasks"
proof (induction cfg story criteria fresh i tasks rule: compile_loop.induct)
  case (1 cfg story criteria fresh i tasks)
  show ?case
  proof (cases "i < length criteria")
    case True
    then have "compile_loop cfg story criteria fresh i tasks
                 = compile_loop cfg story criteria fresh (i + 3) tasks"
      using "1.prems" by (subst compile_loop.simps) simp
    also have "\<dots> = tasks"
      using "1.IH" [OF True refl refl] "1.prems" by simp
    finally show ?thesis .
  next
    case False
    then show ?thesis by (subst compile_loop.simps) simp
  qed
qed

lemma compile_loop_slices:
  assumes "length tasks = j"
  shows "compile_loop cfg story criteria fresh (3 * j) tasks =
           tasks @ map (\<lambda>m. create_task_packet cfg story (take 3 (drop (3 * m) criteria)) m (fresh m))
                     [j..<min ((length criteria + 2) div 3) (nat (max_tasks_per_story cfg))]"
  using assms
proof (induction "length criteria - 3 * j" arbitrary: j tasks rule: less_induct)
  case less
  let ?pk = "\<lambda>m. create_task_packet cfg story (take 3 (drop (3 * m) criteria)) m (fresh m)"
  let ?top = "min ((length criteria + 2) div 3) (nat (max_tasks_per_story cfg))"
  show ?case
  proof (cases "3 * j < length criteria")
    case False
    then have "?top \<le> j" by simp
    then have "[j..<?top] = []" by simp
    moreover have "compile_loop cfg story criteria fresh (3 * j) tasks = tasks"
      using False by (subst compile_loop.simps) simp
    ultimately show ?thesis by simp
  next
    case True
    show ?thesis
    proof (cases "int (length tasks) < max_tasks_per_story cfg")
      case room: True
      let ?tasks' = "tasks @ [?pk j]"
      have "compile_loop cfg story criteria fresh (3 * j) tasks
              = compile_loop cfg story criteria fresh (3 * Suc j) ?tasks'"
        using True room less.prems by (subst compile_loop.simps) (simp add: Let_def add.commute)
      also have "\<dots> = ?tasks' @ map ?pk [Suc j..<?top]"
        using True less.prems by (intro less.hyps) simp_all
      also have "\<dots> = tasks @ map ?pk [j..<?top]"
      proof -
        have "j < (length criteria + 2) div 3" using True by presburger
        moreover have "j < nat (max_tasks_per_story cfg)" using room less.prems by simp
        ultimately have "j < ?top" by simp
        then show ?thesis by (simp add: upt_conv_Cons)
      qed
      finally show ?thesis .
    next
      case full: False
      have "compile_loop cfg story criteria fresh (3 * j) tasks
              = compile_loop cfg story criteria fresh (3 * j + 3) tasks"
        using True full by (subst compile_loop.simps) simp
      also have "\<dots> = tasks"
        using full by (intro compile_loop_capped) simp
      finally have "compile_loop cfg story criteria fresh (3 * j) tasks = tasks" .
      moreover have "?top \<le> j" using full less.prems by simp
      ultimately show ?thesis by simp
    qed
  qed
qed

lemma created_fields:
  "success_criteria (goal (create_task_packet cfg story cs m fr)) = cs"
  "title (goal (create_task_packet cfg story cs m fr)) = part_title story m"
  by (simp_all add: create_task_packet_def part_title_def split: prod.splits)

lemma take_upt_min: "take m [0..<n] = [0..<min m n]"
proof (cases "m \<le> n")
  case True
  then show ?thesis by (simp add: min_absorb1)
next
  case False
  then have "n \<le> m" by simp
  then show ?thesis by (simp add: min_absorb2)
qed

text \<open>
  C4: let \<open>criteria\<close> be the parsed list. \<open>compile\<close> returns packets. With at most 3
  criteria there is exactly one packet and it holds them all. With more, the
  packets' criteria lists are the consecutive groups of 3 of the specification
  (\<open>chunks_of_3\<close>), cut after \<open>max_tasks_per_story\<close> groups. The groups concatenated give
  \<open>criteria\<close> back; the packet at position \<open>i\<close> holds the slice of \<open>criteria\<close> from \<open>3 * i\<close>
  of length at most 3; and the titles are the story's title for position 0 and the
  title followed by \<open> (Part i+1)\<close> for position \<open>i > 0\<close> (\<open>part_title\<close>).
\<close>

theorem compile_decomposition:
  assumes parsed: "parse_acceptance_criteria u (acceptance_criteria story) = Inr criteria"
  shows "\<exists>packets. compile cfg u fresh story = Inr packets \<and>
     (length criteria \<le> 3 \<longrightarrow>
        length packets = 1 \<and> map (\<lambda>p. success_criteria (goal p)) packets = [criteria]) \<and>
     (3 < length criteria \<longrightarrow>
        map (\<lambda>p. success_criteria (goal p)) packets =
          take (nat (max_tasks_per_story cfg)) (chunks_of_3 criteria)) \<and>
     concat (chunks_of_3 criteria) = criteria \<and>
     (\<forall>i<length packets.
        success_criteria (goal (packets ! i)) = take 3 (drop (3 * i) criteria)) \<and>
     map (\<lambda>p. title (goal p)) packets = map (part_title story) [0..<length packets]"
proof (cases "length criteria \<le> 3")
  case True
  let ?p = "create_task_packet cfg story criteria 0 (fresh 0)"
  have "compile cfg u fresh story = Inr [?p]"
    using True by (simp add: compile_def parsed)
  moreover have "take 3 criteria = criteria" using True by simp
  ultimately show ?thesis
    using True by (simp add: created_fields concat_chunks)
next
  case False
  let ?pk = "\<lambda>m. create_task_packet cfg story (take 3 (drop (3 * m) criteria)) m (fresh m)"
  let ?top = "min ((length criteria + 2) div 3) (nat (max_tasks_per_story cfg))"
  let ?packets = "map ?pk [0..<?top]"
  have "compile_loop cfg story criteria fresh (3 * 0) [] = [] @ ?packets"
    by (rule compile_loop_slices) simp
  then have run: "compile cfg u fresh story = Inr ?packets"
    using False by (simp add: compile_def parsed)
  have "map (\<lambda>p. success_criteria (goal p)) ?packets
          = map (\<lambda>m. take 3 (drop (3 * m) criteria)) [0..<?top]"
    by (simp add: created_fields comp_def)
  also have "\<dots> = take (nat (max_tasks_per_story cfg)) (chunks_of_3 criteria)"
  proof -
    have "min (nat (max_tasks_per_story cfg)) ((length criteria + 2) div 3) = ?top"
      by (rule min.commute)
    then show ?thesis
      by (simp only: chunks_as_slices take_map take_upt_min)
  qed
  finally have slices: "map (\<lambda>p. success_criteria (goal p)) ?packets
          = take (nat (max_tasks_per_story cfg)) (chunks_of_3 criteria)" .
  have each: "\<forall>i<length ?packets.
        success_criteria (goal (?packets ! i)) = take 3 (drop (3 * i) criteria)"
    by (simp add: created_fields)
  have titles: "map (\<lambda>p. title (goal p)) ?packets = map (part_title story) [0..<length ?packets]"
    by (simp add: created_fields comp_def)
  show ?thesis
  proof (intro exI conjI impI)
    show "compile cfg u fresh story = Inr ?packets" by (rule run)
    show "length ?packets = 1" if "length criteria \<le> 3" using that False by simp
    show "map (\<lambda>p. success_criteria (goal p)) ?packets = [criteria]" if "length criteria \<le> 3"
      using that False by simp
    show "map (\<lambda>p. success_criteria (goal p)) ?packets =
            take (nat (max_tasks_per_story cfg)) (chunks_of_3 criteria)" by (rule slices)
    show "concat (chunks_of_3 criteria) = criteria" by (rule concat_chunks)
    show "\<forall>i<length ?packets.
        success_criteria (goal (?packets ! i)) = take 3 (drop (3 * i) criteria)" by (rule each)
    show "map (\<lambda>p. title (goal p)) ?packets = map (part_title story) [0..<length ?packets]"
      by (rule titles)
  qed
qed

text \<open>
  Scenario 2 of the specification: seven criteria give three packets with 3, 3 and 1
  criteria and the titles \<open>T\<close>, \<open>T (Part 2)\<close>, \<open>T (Part 3)\<close>; under a cap of 2 only the first
  two packets are returned.
\<close>

theorem compile_decomposition_witness:
  "parse_acceptance_criteria ascii_tables (acceptance_criteria (story_with seven_criteria))
     = Inr (map ustr [''c1'', ''c2'', ''c3'', ''c4'', ''c5'', ''c6'', ''c7'']) \<and>
   (\<exists>packets. compile default_config ascii_tables example_fresh (story_with seven_criteria)
       = Inr packets \<and>
      map (\<lambda>p. success_criteria (goal p)) packets =
        [map ustr [''c1'', ''c2'', ''c3''], map ustr [''c4'', ''c5'', ''c6''], map ustr [''c7'']] \<and>
      map (\<lambda>p. title (goal p)) packets = map ustr [''T'', ''T (Part 2)'', ''T (Part 3)'']) \<and>
   (\<exists>packets. compile (default_config\<lparr>max_tasks_per_story := 2\<rparr>) ascii_tables example_fresh
        (story_with seven_criteria) = Inr packets \<and>
      map (\<lambda>p. success_criteria (goal p)) packets =
        [map ustr [''c1'', ''c2'', ''c3''], map ustr [''c4'', ''c5'', ''c6'']])"
proof -
  let ?cs = "map ustr [''c1'', ''c2'', ''c3'', ''c4'', ''c5'', ''c6'', ''c7'']"
  have parsed: "parse_acceptance_criteria ascii_tables
                  (acceptance_criteria (story_with seven_criteria)) = Inr ?cs"
    by code_simp
  have long: "3 < length ?cs"
    by simp
  have chunks: "chunks_of_3 ?cs =
      [map ustr [''c1'', ''c2'', ''c3''], map ustr [''c4'', ''c5'', ''c6''], map ustr [''c7'']]"
    by code_simp
  have caps: "nat (max_tasks_per_story default_config) = 10"
    "nat (max_tasks_per_story (default_config\<lparr>max_tasks_per_story := 2\<rparr>)) = 2"
    by (simp_all add: default_config_def)
  have titles: "map (part_title (story_with seven_criteria)) [0..<3]
                  = map ustr [''T'', ''T (Part 2)'', ''T (Part 3)'']"
    by code_simp
  from compile_decomposition [OF parsed, of default_config example_fresh]
  obtain packets where p:
    "compile default_config ascii_tables example_fresh (story_with seven_criteria) = Inr packets"
    "map (\<lambda>p. success_criteria (goal p)) packets = take 10 (chunks_of_3 ?cs)"
    "map (\<lambda>p. title (goal p)) packets
       = map (part_title (story_with seven_criteria)) [0..<length packets]"
    using long unfolding caps by blast
  have p2: "map (\<lambda>p. success_criteria (goal p)) packets =
      [map ustr [''c1'', ''c2'', ''c3''], map ustr [''c4'', ''c5'', ''c6''], map ustr [''c7'']]"
    using p(2) unfolding chunks by simp
  then have len: "length packets = 3"
    by (metis length_map length_Cons list.size(3) numeral_3_eq_3)
  have p3: "map (\<lambda>p. title (goal p)) packets = map ustr [''T'', ''T (Part 2)'', ''T (Part 3)'']"
    using p(3) unfolding len titles .
  from compile_decomposition [OF parsed, of "default_config\<lparr>max_tasks_per_story := 2\<rparr>" example_fresh]
  obtain capped where c:
    "compile (default_config\<lparr>max_tasks_per_story := 2\<rparr>) ascii_tables example_fresh
       (story_with seven_criteria) = Inr capped"
    "map (\<lambda>p. success_criteria (goal p)) capped = take 2 (chunks_of_3 ?cs)"
    using long unfolding caps by blast
  have c2: "map (\<lambda>p. success_criteria (goal p)) capped =
      [map ustr [''c1'', ''c2'', ''c3''], map ustr [''c4'', ''c5'', ''c6'']]"
    using c(2) unfolding chunks by simp
  have uncapped: "\<exists>packets. compile default_config ascii_tables example_fresh
        (story_with seven_criteria) = Inr packets \<and>
      map (\<lambda>p. success_criteria (goal p)) packets =
        [map ustr [''c1'', ''c2'', ''c3''], map ustr [''c4'', ''c5'', ''c6''], map ustr [''c7'']] \<and>
      map (\<lambda>p. title (goal p)) packets = map ustr [''T'', ''T (Part 2)'', ''T (Part 3)'']"
    by (intro exI [of _ packets] conjI p(1) p2 p3)
  have capped: "\<exists>packets. compile (default_config\<lparr>max_tasks_per_story := 2\<rparr>) ascii_tables
        example_fresh (story_with seven_criteria) = Inr packets \<and>
      map (\<lambda>p. success_criteria (goal p)) packets =
        [map ustr [''c1'', ''c2'', ''c3''], map ustr [''c4'', ''c5'', ''c6'']]"
    by (intro exI [of _ capped] conjI c(1) c2)
  show ?thesis
    by (intro conjI parsed uncapped capped)
qed

subsection \<open>Retry enrichment\<close>

lemma deref_PRef: "deref h v = Some obj \<longleftrightarrow> (\<exists>a. v = PRef a \<and> a < length h \<and> h ! a = obj)"
  by (cases v) (auto simp: deref_def)

lemma copy_method_found:
  "deref h v = Some obj \<Longrightarrow> copy_method h v = Inr (h @ [obj], PRef (length h))"
  by (simp add: copy_method_def alloc_def)

lemma deref_append: "deref h v = Some obj \<Longrightarrow> deref (h @ extra) v = Some obj"
  by (auto simp: deref_PRef nth_append)

lemma get_or_new_dict_found:
  assumes "deref h v = Some (PDict items)" "map_of items key = Some found"
  shows "get_or_new_dict h v key = Inr (h @ [PDict []], found)"
  using assms deref_append [OF assms(1), of "[PDict []]"]
  by (simp add: get_or_new_dict_def alloc_def)

lemma setitem_dict:
  assumes "a < length h" "h ! a = PDict items"
  shows "setitem h (PRef a) key val = Inr (h[a := PDict (AList.update key val items)])"
  using assms by (simp add: setitem_def)

lemma getitem_found:
  assumes "a < length h" "h ! a = PDict items" "map_of items key = Some found"
  shows "getitem h (PRef a) key = Inr found"
  using assms by (simp add: getitem_def deref_def)

lemma and_then_Inr: "and_then (Inr x) f = f x"
  by (simp add: and_then_def)

text \<open>
  C9: let the packet be a dict whose \<open>inputs\<close> and \<open>execution\<close> entries refer to dicts.
  Then \<open>enrich_for_retry\<close> returns, and returns a dict that did not exist before the
  call. Every object of the store before the call, so the packet, its groups and
  their \<open>retry_guidance\<close> and \<open>current_attempt\<close> entries, is the same afterwards. The
  returned dict agrees with the packet on every key but \<open>inputs\<close> and \<open>execution\<close>; its
  \<open>inputs\<close> is a new dict equal to the packet's except that \<open>retry_guidance\<close> is the
  given guidance, and its \<open>execution\<close> a new dict equal to the packet's except that
  \<open>current_attempt\<close> is the given attempt.
\<close>

theorem enrich_for_retry_frame:
  assumes packet: "deref h task_packet = Some (PDict items)"
    and inp: "map_of items ''inputs'' = Some old_inputs"
      "deref h old_inputs = Some (PDict in_items)"
    and exe: "map_of items ''execution'' = Some old_execution"
      "deref h old_execution = Some (PDict ex_items)"
  shows "\<exists>h' enriched new_inputs new_execution.
     enrich_for_retry h task_packet guidance n = Inr (h', enriched) \<and>
     (\<forall>v obj. deref h v = Some obj \<longrightarrow> deref h' v = Some obj) \<and>
     deref h enriched = None \<and> deref h new_inputs = None \<and> deref h new_execution = None \<and>
     (\<forall>key. key \<noteq> ''inputs'' \<and> key \<noteq> ''execution'' \<longrightarrow>
        dict_of h' enriched key = map_of items key) \<and>
     dict_of h' enriched ''inputs'' = Some new_inputs \<and>
     dict_of h' new_inputs = (map_of in_items)(''retry_guidance'' \<mapsto> guidance) \<and>
     dict_of h' enriched ''execution'' = Some new_execution \<and>
     dict_of h' new_execution = (map_of ex_items)(''current_attempt'' \<mapsto> PInt n)"
proof -
  let ?n = "length h"
  let ?items1 = "AList.update ''inputs'' (PRef (?n + 2)) items"
  let ?items2 = "AList.update ''execution'' (PRef (?n + 4)) ?items1"
  let ?in' = "AList.update ''retry_guidance'' guidance in_items"
  let ?ex' = "AList.update ''current_attempt'' (PInt n) ex_items"
  let ?h1 = "h @ [PDict items]"
  let ?h2 = "?h1 @ [PDict []]"
  let ?h3 = "?h2 @ [PDict in_items]"
  let ?h4 = "?h3[?n := PDict ?items1]"
  let ?h5 = "?h4[?n + 2 := PDict ?in']"
  let ?h6 = "?h5 @ [PDict []]"
  let ?h7 = "?h6 @ [PDict ex_items]"
  let ?h8 = "?h7[?n := PDict ?items2]"
  let ?h9 = "?h8[?n + 4 := PDict ?ex']"
  obtain a where a: "task_packet = PRef a" "a < ?n" "h ! a = PDict items"
    using packet by (auto simp: deref_PRef)
  obtain ai where ai: "old_inputs = PRef ai" "ai < ?n" "h ! ai = PDict in_items"
    using inp(2) by (auto simp: deref_PRef)
  obtain ae where ae: "old_execution = PRef ae" "ae < ?n" "h ! ae = PDict ex_items"
    using exe(2) by (auto simp: deref_PRef)
  have s1: "copy_method h task_packet = Inr (?h1, PRef ?n)"
    by (rule copy_method_found [OF packet])
  have s2: "get_or_new_dict ?h1 task_packet ''inputs'' = Inr (?h2, old_inputs)"
    by (rule get_or_new_dict_found [OF deref_append [OF packet] inp(1)])
  have s3: "copy_method ?h2 old_inputs = Inr (?h3, PRef (?n + 2))"
    using copy_method_found [OF deref_append [OF deref_append [OF inp(2)]],
        of "[PDict items]" "[PDict []]"] by simp
  have s4: "setitem ?h3 (PRef ?n) ''inputs'' (PRef (?n + 2)) = Inr ?h4"
    by (rule setitem_dict) (simp_all add: nth_append)
  have s5: "getitem ?h4 (PRef ?n) ''inputs'' = Inr (PRef (?n + 2))"
    by (rule getitem_found [where items = ?items1]) (simp_all add: update_conv')
  have s6: "setitem ?h4 (PRef (?n + 2)) ''retry_guidance'' guidance = Inr ?h5"
    by (rule setitem_dict) (simp_all add: nth_append)
  have p5: "deref ?h5 task_packet = Some (PDict items)"
    using a by (simp add: deref_def nth_append)
  have s7: "get_or_new_dict ?h5 task_packet ''execution'' = Inr (?h6, old_execution)"
    by (rule get_or_new_dict_found [OF p5 exe(1)])
  have e6: "deref ?h6 old_execution = Some (PDict ex_items)"
    using ae by (simp add: deref_def nth_append)
  have s8: "copy_method ?h6 old_execution = Inr (?h7, PRef (?n + 4))"
    using copy_method_found [OF e6] by simp
  have s9: "setitem ?h7 (PRef ?n) ''execution'' (PRef (?n + 4)) = Inr ?h8"
    by (rule setitem_dict) (simp_all add: nth_append)
  have s10: "getitem ?h8 (PRef ?n) ''execution'' = Inr (PRef (?n + 4))"
    by (rule getitem_found [where items = ?items2]) (simp_all add: update_conv')
  have s11: "setitem ?h8 (PRef (?n + 4)) ''current_attempt'' (PInt n) = Inr ?h9"
    by (rule setitem_dict) (simp_all add: nth_append)
  have run: "enrich_for_retry h task_packet guidance n = Inr (?h9, PRef ?n)"
    unfolding enrich_for_retry_def
    by (simp only: s1 s2 s3 s4 s5 s6 s7 s8 s9 s10 s11 and_then_Inr prod.case)
  have old: "\<forall>v obj. deref h v = Some obj \<longrightarrow> deref ?h9 v = Some obj"
    by (auto simp: deref_PRef nth_append)
  have fresh: "deref h (PRef ?n) = None" "deref h (PRef (?n + 2)) = None"
    "deref h (PRef (?n + 4)) = None"
    by (simp_all add: deref_def)
  have top: "dict_of ?h9 (PRef ?n) = map_of ?items2"
    by (simp add: dict_of_def deref_def nth_append)
  have ins: "dict_of ?h9 (PRef (?n + 2)) = map_of ?in'"
    by (simp add: dict_of_def deref_def nth_append)
  have exs: "dict_of ?h9 (PRef (?n + 4)) = map_of ?ex'"
    by (simp add: dict_of_def deref_def nth_append)
  show ?thesis
  proof (intro exI conjI)
    show "enrich_for_retry h task_packet guidance n = Inr (?h9, PRef ?n)" by (rule run)
    show "\<forall>v obj. deref h v = Some obj \<longrightarrow> deref ?h9 v = Some obj" by (rule old)
    show "deref h (PRef ?n) = None" "deref h (PRef (?n + 2)) = None"
      "deref h (PRef (?n + 4)) = None" by (rule fresh)+
    show "\<forall>key. key \<noteq> ''inputs'' \<and> key \<noteq> ''execution'' \<longrightarrow>
            dict_of ?h9 (PRef ?n) key = map_of items key"
      unfolding top by (simp add: update_conv')
    show "dict_of ?h9 (PRef ?n) ''inputs'' = Some (PRef (?n + 2))"
      unfolding top by (simp add: update_conv')
    show "dict_of ?h9 (PRef (?n + 2)) = (map_of in_items)(''retry_guidance'' \<mapsto> guidance)"
      unfolding ins by (simp add: update_conv')
    show "dict_of ?h9 (PRef ?n) ''execution'' = Some (PRef (?n + 4))"
      unfolding top by (simp add: update_conv')
    show "dict_of ?h9 (PRef (?n + 4)) = (map_of ex_items)(''current_attempt'' \<mapsto> PInt n)"
      unfolding exs by (simp add: update_conv')
  qed
qed

text \<open>
  The theorem at the example store: after the call with the guidance list at address
  15 and attempt 1, the packet at 14 and its groups at 10 and 11 are as before (no
  guidance, attempt 0), the result shares the packet's \<open>goal\<close>, and its own \<open>inputs\<close> and
  \<open>execution\<close> carry the guidance and the attempt.
\<close>

theorem enrich_for_retry_frame_witness:
  "\<exists>h' enriched new_inputs new_execution.
     enrich_for_retry packet_store (PRef 14) (PRef 15) 1 = Inr (h', enriched) \<and>
     deref h' (PRef 14) = deref packet_store (PRef 14) \<and>
     deref h' (PRef 10) = deref packet_store (PRef 10) \<and>
     deref h' (PRef 11) = deref packet_store (PRef 11) \<and>
     deref packet_store enriched = None \<and>
     dict_of h' (PRef 14) ''inputs'' = Some (PRef 10) \<and>
     dict_of h' (PRef 10) ''retry_guidance'' = Some (PRef 6) \<and>
     dict_of h' (PRef 11) ''current_attempt'' = Some (PInt 0) \<and>
     dict_of h' enriched ''goal'' = Some (PRef 8) \<and>
     dict_of h' enriched ''inputs'' = Some new_inputs \<and>
     dict_of h' new_inputs ''retry_guidance'' = Some (PRef 15) \<and>
     dict_of h' new_inputs ''context_files'' = Some (PRef 4) \<and>
     dict_of h' enriched ''execution'' = Some new_execution \<and>
     dict_of h' new_execution ''current_attempt'' = Some (PInt 1) \<and>
     dict_of h' new_execution ''max_attempts'' = Some (PInt 3)"
proof -
  let ?items = "[(''identity'', PRef 7), (''goal'', PRef 8), (''constraints'', PRef 9),
             (''inputs'', PRef 10), (''execution'', PRef 11), (''provider_context'', PRef 12),
             (''metadata'', PRef 13)]"
  let ?in_items = "[(''context_files'', PRef 4), (''dependencies'', PRef 5),
             (''retry_guidance'', PRef 6)]"
  let ?ex_items = "[(''max_attempts'', PInt 3), (''current_attempt'', PInt 0),
             (''timeout_seconds'', PInt 300)]"
  have packet: "deref packet_store (PRef 14) = Some (PDict ?items)"
    by (simp add: deref_def packet_store_def)
  have inp: "map_of ?items ''inputs'' = Some (PRef 10)"
    "deref packet_store (PRef 10) = Some (PDict ?in_items)"
    by (simp_all add: deref_def packet_store_def)
  have exe: "map_of ?items ''execution'' = Some (PRef 11)"
    "deref packet_store (PRef 11) = Some (PDict ?ex_items)"
    by (simp_all add: deref_def packet_store_def)
  from enrich_for_retry_frame [OF packet inp exe, of "PRef 15" 1]
  show ?thesis
  proof (elim exE conjE)
    fix h' enriched new_inputs new_execution
    assume r:
      "enrich_for_retry packet_store (PRef 14) (PRef 15) 1 = Inr (h', enriched)"
      "\<forall>v obj. deref packet_store v = Some obj \<longrightarrow> deref h' v = Some obj"
      "deref packet_store enriched = None"
      "\<forall>key. key \<noteq> ''inputs'' \<and> key \<noteq> ''execution'' \<longrightarrow>
         dict_of h' enriched key = map_of ?items key"
      "dict_of h' enriched ''inputs'' = Some new_inputs"
      "dict_of h' new_inputs = (map_of ?in_items)(''retry_guidance'' \<mapsto> PRef 15)"
      "dict_of h' enriched ''execution'' = Some new_execution"
      "dict_of h' new_execution = (map_of ?ex_items)(''current_attempt'' \<mapsto> PInt 1)"
    have kept: "deref h' (PRef 14) = deref packet_store (PRef 14)"
      "deref h' (PRef 10) = deref packet_store (PRef 10)"
      "deref h' (PRef 11) = deref packet_store (PRef 11)"
      using r(2) [rule_format, OF packet] r(2) [rule_format, OF inp(2)]
        r(2) [rule_format, OF exe(2)] packet inp(2) exe(2) by simp_all
    have old: "dict_of h' (PRef 14) ''inputs'' = Some (PRef 10)"
      "dict_of h' (PRef 10) ''retry_guidance'' = Some (PRef 6)"
      "dict_of h' (PRef 11) ''current_attempt'' = Some (PInt 0)"
      unfolding dict_of_def kept by (simp_all add: packet inp(2) exe(2))
    have shared: "dict_of h' enriched ''goal'' = Some (PRef 8)"
      using r(4) [rule_format, of "''goal''"] by simp
    have new: "dict_of h' new_inputs ''retry_guidance'' = Some (PRef 15)"
      "dict_of h' new_inputs ''context_files'' = Some (PRef 4)"
      "dict_of h' new_execution ''current_attempt'' = Some (PInt 1)"
      "dict_of h' new_execution ''max_attempts'' = Some (PInt 3)"
      unfolding r(6) r(8) by simp_all
    show ?thesis
      by (intro exI [of _ h'] exI [of _ enriched] exI [of _ new_inputs] exI [of _ new_execution]
          conjI r(1) kept r(3) old shared r(5) new r(7))
  qed
qed

end
